theory Spec2Isabelle
  imports
    Complex_Main
    "HOL-Library.Multiset"
    "HOL-Library.Char_ord"
    "HOL-Library.List_Lexorder"
    "HOL-Library.Product_Lexorder"
begin

section \<open>The catalog store (db.ts)\<close>

text \<open>
  The tables of \<^verbatim>\<open>openDatabase\<close>, one record per row, one list per table. Integer
  columns are \<^typ>\<open>int\<close>; a column that the schema leaves nullable and that the code
  reads as nullable (\<^verbatim>\<open>order_index\<close>, \<^verbatim>\<open>last_played\<close>, \<^verbatim>\<open>meta\<close>) is an option.
  Text is a byte string. The \<^verbatim>\<open>settings\<close> table and the timestamps \<^verbatim>\<open>added_on\<close> of
  the association tables are not read by the operations modelled here and are left out.
\<close>

record file_row =
  f_id :: int
  f_path :: string
  f_name :: string
  f_ext :: string
  f_duration_ms :: int
  f_size :: int
  f_mtime :: int
  f_created_ms :: int
  f_rating :: int
  f_meta :: "string option"
  f_added_on :: int
  f_last_played :: "int option"
  f_play_count :: int
  f_is_missing :: int

record playlist_row =
  p_id :: int
  p_name :: string

record file_playlist_row =
  fp_id :: int
  fp_file_id :: int
  fp_playlist_id :: int
  fp_order_index :: "int option"

record tag_row =
  t_id :: int
  t_name :: string

record file_tag_row =
  ft_id :: int
  ft_file_id :: int
  ft_tag_id :: int

text \<open>
  The \<^verbatim>\<open>seq_\<close> fields are the rows of \<^verbatim>\<open>sqlite_sequence\<close> that \<^verbatim>\<open>AUTOINCREMENT\<close>
  keeps: the largest id ever handed out in each table.
\<close>

record database =
  files :: "file_row list"
  playlists :: "playlist_row list"
  file_playlists :: "file_playlist_row list"
  tags_table :: "tag_row list"
  file_tags :: "file_tag_row list"
  seq_files :: int
  seq_file_playlists :: int
  seq_tags :: int
  seq_file_tags :: int

datatype db_error =
  UniqueViolation
  | ForeignKeyViolation
  | ReadDirError
  | StatError

text \<open>
  \<^verbatim>\<open>INTEGER PRIMARY KEY AUTOINCREMENT\<close>: the new id is one more than the largest of
  the ids in the table and the remembered sequence value.
\<close>

definition next_rowid :: "int \<Rightarrow> int list \<Rightarrow> int" where
  "next_rowid seq ids = fold max ids seq + 1"

text \<open>A full scan of \<^verbatim>\<open>files\<close> walks the rowid b-tree: ascending id.\<close>

definition files_by_id :: "database \<Rightarrow> file_row list" where
  "files_by_id d = sort_key f_id (files d)"

section \<open>The host: Node's path, url and fs modules\<close>

text \<open>
  The functions of the Node runtime that library.ts calls are parameters of the model.
\<close>

record host =
  path_join :: "string \<Rightarrow> string \<Rightarrow> string"
  path_relative :: "string \<Rightarrow> string \<Rightarrow> string"
  path_basename :: "string \<Rightarrow> string"
  path_extname :: "string \<Rightarrow> string"
  toLowerCase :: "string \<Rightarrow> string"
  pathToFileURL :: "string \<Rightarrow> string"
  getThumbnailPath :: "string \<Rightarrow> string \<Rightarrow> string"
  existsSync :: "string \<Rightarrow> bool"
  date_now :: int

section \<open>Requests and responses (shared/types)\<close>

datatype SortMode = Playlist | Filename | Created | Random

text \<open>
  Modelled from the spec: the declaration of \<^verbatim>\<open>PlaylistRequest\<close> (shared/types) is not
  among the sources; its fields are the ones getPlaylist and buildPlaylistQueryParts read
  and the renderer's \<^verbatim>\<open>buildPlaylistRequest\<close> writes. \<^verbatim>\<open>limit\<close>, \<^verbatim>\<open>offset\<close> and \<^verbatim>\<open>seed\<close>
  are optional JavaScript numbers, here finite rationals (NaN and the infinities are
  outside the model).
\<close>

record PlaylistRequest =
  sort_mode :: SortMode
  ratingMin :: int
  tags :: "string list"
  limit :: "rat option"
  offset :: "rat option"
  seed :: "rat option"

record FileItem =
  item_id :: int
  path :: string
  name :: string
  ext :: string
  durationMs :: int
  rating :: int
  item_size :: int
  mtime :: int
  createdMs :: int
  orderIndex :: int
  item_tags :: "string list"
  absolutePath :: string
  fileUrl :: string
  thumbnailPath :: "string option"
  thumbnailUrl :: "string option"

text \<open>
  Modelled from the spec: the declaration of \<^verbatim>\<open>PlaylistResponse\<close> is not among the sources
  either; getPlaylist returns \<^verbatim>\<open>{ items, total }\<close>.
\<close>

record PlaylistResponse =
  items :: "FileItem list"
  total_count :: int

record manager =
  root_dir :: "string option"
  db :: "database option"
  libraryPlaylistId :: int

text \<open>\<^verbatim>\<open>!this.root || !this.db\<close>: an empty string is falsy as well.\<close>

definition not_open :: "manager \<Rightarrow> bool" where
  "not_open m = (root_dir m = None \<or> root_dir m = Some [] \<or> db m = None)"

section \<open>The playlist query (library.ts, getPlaylist)\<close>

subsection \<open>JavaScript numbers\<close>

definition math_trunc :: "rat \<Rightarrow> int" where
  "math_trunc x = (if x < 0 then \<lceil>x\<rceil> else \<lfloor>x\<rfloor>)"

subsection \<open>buildOrderBy and buildPlaylistQueryParts\<close>

text \<open>
  The SQL fragments are kept as data: the ORDER BY clause with its parameter, the rating
  parameter of \<^verbatim>\<open>AND f.rating >= ?\<close> (none when the fragment is empty), and the
  parameters of the HAVING clause (the names bound to the placeholders of \<^verbatim>\<open>IN\<close>, and the
  number the count is compared with).
\<close>

datatype order_by =
  OrderFilename
  | OrderCreated
  | OrderRandom int
  | OrderPlaylist

definition buildOrderBy :: "PlaylistRequest \<Rightarrow> order_by" where
  "buildOrderBy options =
     (case sort_mode options of
        Filename \<Rightarrow> OrderFilename
      | Created \<Rightarrow> OrderCreated
      | Random \<Rightarrow>
          (let s = \<bar>math_trunc (case seed options of None \<Rightarrow> 1 | Some x \<Rightarrow> x)\<bar>
           in OrderRandom (if s = 0 then 1 else s))
      | Playlist \<Rightarrow> OrderPlaylist)"

record query_parts =
  ratingParams :: "int option"
  tagParams :: "(string list \<times> int) option"
  orderBy :: order_by

definition buildPlaylistQueryParts :: "PlaylistRequest \<Rightarrow> query_parts" where
  "buildPlaylistQueryParts options =
     \<lparr> ratingParams = (if ratingMin options > 0 then Some (ratingMin options) else None),
       tagParams = (if length (tags options) > 0
                    then Some (tags options, int (length (tags options))) else None),
       orderBy = buildOrderBy options \<rparr>"

subsection \<open>The joins and the grouping\<close>

text \<open>
  \<^verbatim>\<open>FROM files f LEFT JOIN file_playlists fp ... LEFT JOIN file_tags ft ... LEFT JOIN tags t\<close>,
  grouped by \<^verbatim>\<open>f.id\<close> (the primary key: one group per row of \<^verbatim>\<open>files\<close>). The group of a
  file has one joined row for every pair of a membership (or none) and a tag association
  (or none).
\<close>

definition memberships_of :: "database \<Rightarrow> int \<Rightarrow> int \<Rightarrow> file_playlist_row list" where
  "memberships_of d playlistId fid =
     filter (\<lambda>fp. fp_file_id fp = fid \<and> fp_playlist_id fp = playlistId) (file_playlists d)"

definition left_join :: "'a list \<Rightarrow> 'a option list" where
  "left_join xs = (if xs = [] then [None] else map Some xs)"

text \<open>The value of \<^verbatim>\<open>t.name\<close> in each joined row of the tag side (NULL where no tag matches).\<close>

definition tag_side :: "database \<Rightarrow> int \<Rightarrow> string option list" where
  "tag_side d fid =
     concat (map (\<lambda>ft. case ft of
                     None \<Rightarrow> [None]
                   | Some a \<Rightarrow> map (map_option t_name)
                               (left_join (filter (\<lambda>t. t_id t = ft_tag_id a) (tags_table d))))
              (left_join (filter (\<lambda>ft. ft_file_id ft = fid) (file_tags d))))"

text \<open>The non-NULL values of \<^verbatim>\<open>t.name\<close> over the whole group of a file.\<close>

definition group_tag_names :: "database \<Rightarrow> int \<Rightarrow> int \<Rightarrow> string list" where
  "group_tag_names d playlistId fid =
     concat (map (\<lambda>_. concat (map (\<lambda>n. case n of None \<Rightarrow> [] | Some s \<Rightarrow> [s]) (tag_side d fid)))
              (left_join (memberships_of d playlistId fid)))"

text \<open>\<^verbatim>\<open>COUNT(DISTINCT CASE WHEN t.name IN (...) THEN t.name END)\<close>\<close>

definition count_distinct_in :: "string list \<Rightarrow> string list \<Rightarrow> int" where
  "count_distinct_in names wanted = int (length (remdups (filter (\<lambda>n. n \<in> set wanted) names)))"

text \<open>\<^verbatim>\<open>COALESCE(fp.order_index, 0)\<close>, read from the first joined row of the group.\<close>

definition group_order_index :: "database \<Rightarrow> int \<Rightarrow> int \<Rightarrow> int" where
  "group_order_index d playlistId fid =
     (case memberships_of d playlistId fid of
        [] \<Rightarrow> 0
      | fp # _ \<Rightarrow> (case fp_order_index fp of None \<Rightarrow> 0 | Some k \<Rightarrow> k))"

text \<open>\<^verbatim>\<open>GROUP_CONCAT(t.name, '||')\<close>: NULL when the group has no name.\<close>

fun join_names :: "string list \<Rightarrow> string" where
  "join_names [] = []"
| "join_names [n] = n"
| "join_names (n # ns) = n @ ''||'' @ join_names ns"

definition group_concat :: "string list \<Rightarrow> string option" where
  "group_concat names = (if names = [] then None else Some (join_names names))"

text \<open>
  \<^verbatim>\<open>WHERE f.is_missing = 0 [AND f.rating >= ?] GROUP BY f.id [HAVING ... = ?]\<close>: the files
  whose groups the query keeps, in the order of the scan.
\<close>

definition where_clause :: "query_parts \<Rightarrow> file_row \<Rightarrow> bool" where
  "where_clause q f =
     (f_is_missing f = 0 \<and> (case ratingParams q of None \<Rightarrow> True | Some r \<Rightarrow> f_rating f \<ge> r))"

definition having_clause :: "database \<Rightarrow> int \<Rightarrow> query_parts \<Rightarrow> file_row \<Rightarrow> bool" where
  "having_clause d playlistId q f =
     (case tagParams q of
        None \<Rightarrow> True
      | Some (wanted, n) \<Rightarrow> count_distinct_in (group_tag_names d playlistId (f_id f)) wanted = n)"

definition base_groups :: "database \<Rightarrow> int \<Rightarrow> query_parts \<Rightarrow> file_row list" where
  "base_groups d playlistId q =
     filter (\<lambda>f. where_clause q f \<and> having_clause d playlistId q f) (files_by_id d)"

subsection \<open>ORDER BY, LIMIT and OFFSET\<close>

text \<open>
  \<^verbatim>\<open>COLLATE NOCASE\<close> folds the 26 upper case letters of ASCII and compares bytes. The
  \<^verbatim>\<open>%\<close> of SQLite truncates towards zero; the product \<^verbatim>\<open>f.id * ?\<close> is taken in the
  integers, which is what SQLite computes as long as it stays below \<open>2\<^sup>5\<^sup>3\<close>. SQL leaves
  the order of rows with equal keys open; the model takes a stable sort of the scan order.
\<close>

definition nocase_char :: "char \<Rightarrow> char" where
  "nocase_char c =
     (if CHR ''A'' \<le> c \<and> c \<le> CHR ''Z'' then char_of (of_char c + (32::nat)) else c)"

definition nocase :: "string \<Rightarrow> string" where
  "nocase s = map nocase_char s"

definition sql_rem :: "int \<Rightarrow> int \<Rightarrow> int" where
  "sql_rem a b = sgn a * (\<bar>a\<bar> mod \<bar>b\<bar>)"

definition order_rows :: "database \<Rightarrow> int \<Rightarrow> order_by \<Rightarrow> file_row list \<Rightarrow> file_row list" where
  "order_rows d playlistId ob rows =
     (case ob of
        OrderFilename \<Rightarrow> sort_key (\<lambda>f. (nocase (f_name f), f_id f)) rows
      | OrderCreated \<Rightarrow> sort_key (\<lambda>f. (- f_created_ms f, - f_id f)) rows
      | OrderRandom s \<Rightarrow> sort_key (\<lambda>f. sql_rem (f_id f * s) 2147483647) rows
      | OrderPlaylist \<Rightarrow> sort_key (\<lambda>f. (group_order_index d playlistId (f_id f), f_id f)) rows)"

definition request_limit :: "PlaylistRequest \<Rightarrow> int option" where
  "request_limit options =
     (case limit options of
        None \<Rightarrow> None
      | Some l \<Rightarrow> if l \<noteq> 0 \<and> l > 0 then Some (math_trunc l) else None)"

definition request_offset :: "PlaylistRequest \<Rightarrow> int" where
  "request_offset options =
     (case offset options of
        None \<Rightarrow> 0
      | Some k \<Rightarrow> if k \<noteq> 0 \<and> k > 0 then math_trunc k else 0)"

text \<open>\<^verbatim>\<open>limit ? "LIMIT ? OFFSET ?" : ""\<close>: a limit that truncates to 0 is falsy.\<close>

definition paginate :: "int option \<Rightarrow> int \<Rightarrow> 'a list \<Rightarrow> 'a list" where
  "paginate lmt ofs rows =
     (case lmt of
        None \<Rightarrow> rows
      | Some l \<Rightarrow> if l = 0 then rows else take (nat l) (drop (nat ofs) rows))"

subsection \<open>The items\<close>

text \<open>\<^verbatim>\<open>row.tags.split("||").filter(Boolean)\<close>\<close>

fun split_bars :: "string \<Rightarrow> string \<Rightarrow> string list" where
  "split_bars acc [] = [rev acc]"
| "split_bars acc (c # c' # cs) =
     (if c = CHR ''|'' \<and> c' = CHR ''|'' then rev acc # split_bars [] cs
      else split_bars (c # acc) (c' # cs))"
| "split_bars acc [c] = [rev (c # acc)]"

definition row_tags :: "string option \<Rightarrow> string list" where
  "row_tags t =
     (case t of
        None \<Rightarrow> []
      | Some s \<Rightarrow> if s = [] then [] else filter (\<lambda>x. x \<noteq> []) (split_bars [] s))"

text \<open>\<^verbatim>\<open>url.replace("file://", "plyer://")\<close>: the first occurrence only.\<close>

fun starts_with :: "string \<Rightarrow> string \<Rightarrow> bool" where
  "starts_with [] s = True"
| "starts_with (p # ps) [] = False"
| "starts_with (p # ps) (c # cs) = (p = c \<and> starts_with ps cs)"

fun replace_file_scheme :: "string \<Rightarrow> string" where
  "replace_file_scheme [] = []"
| "replace_file_scheme (c # cs) =
     (if starts_with ''file://'' (c # cs) then ''plyer://'' @ drop 7 (c # cs)
      else c # replace_file_scheme cs)"

definition toPlyerUrl :: "host \<Rightarrow> string \<Rightarrow> string" where
  "toPlyerUrl h absolute = replace_file_scheme (pathToFileURL h absolute)"

text \<open>
  One item per returned row. The request for a thumbnail that getPlaylist sends to the
  worker when none exists yet is not part of the response and is left out; a thumbnail
  that the worker writes later is a change of the host, not of the catalog.
\<close>

definition to_item :: "host \<Rightarrow> string \<Rightarrow> database \<Rightarrow> int \<Rightarrow> file_row \<Rightarrow> FileItem" where
  "to_item h r d playlistId f =
     (let absolute = path_join h r (f_path f);
          thumb = getThumbnailPath h r (f_path f)
      in \<lparr> item_id = f_id f,
           path = f_path f,
           name = f_name f,
           ext = f_ext f,
           durationMs = f_duration_ms f,
           rating = f_rating f,
           item_size = f_size f,
           mtime = f_mtime f,
           createdMs = f_created_ms f,
           orderIndex = group_order_index d playlistId (f_id f),
           item_tags = row_tags (group_concat (group_tag_names d playlistId (f_id f))),
           absolutePath = absolute,
           fileUrl = toPlyerUrl h absolute,
           thumbnailPath = (if existsSync h thumb then Some thumb else None),
           thumbnailUrl = (if existsSync h thumb then Some (toPlyerUrl h thumb) else None) \<rparr>)"

definition getPlaylist :: "host \<Rightarrow> manager \<Rightarrow> PlaylistRequest \<Rightarrow> PlaylistResponse" where
  "getPlaylist h m options =
     (if not_open m then \<lparr> items = [], total_count = 0 \<rparr>
      else
        let d = the (db m);
            r = the (root_dir m);
            playlistId = libraryPlaylistId m;
            q = buildPlaylistQueryParts options;
            groups = base_groups d playlistId q;
            rows = paginate (request_limit options) (request_offset options)
                     (order_rows d playlistId (orderBy q) groups)
        in \<lparr> items = map (to_item h r d playlistId) rows, total_count = int (length groups) \<rparr>)"

section \<open>The mutation API (library.ts)\<close>

text \<open>
  A statement outside a transaction commits on its own, so a call that throws half way
  keeps what its earlier statements wrote: a mutation returns the manager after the call
  together with the error it threw, if any.
\<close>

type_synonym mutation_result = "manager \<times> db_error option"

definition update_file_rows :: "int \<Rightarrow> (file_row \<Rightarrow> file_row) \<Rightarrow> database \<Rightarrow> database" where
  "update_file_rows fileId g d =
     d\<lparr> files := map (\<lambda>f. if f_id f = fileId then g f else f) (files d) \<rparr>"

text \<open>The number of rows an \<^verbatim>\<open>UPDATE files ... WHERE id = ?\<close> changes.\<close>

definition rows_matched :: "int \<Rightarrow> database \<Rightarrow> nat" where
  "rows_matched fileId d = length (filter (\<lambda>f. f_id f = fileId) (files d))"

definition setRating :: "manager \<Rightarrow> int \<Rightarrow> int \<Rightarrow> mutation_result" where
  "setRating m fileId r =
     (case db m of
        None \<Rightarrow> (m, None)
      | Some d \<Rightarrow> (m\<lparr> db := Some (update_file_rows fileId (\<lambda>f. f\<lparr> f_rating := r \<rparr>) d) \<rparr>, None))"

definition setDuration :: "manager \<Rightarrow> int \<Rightarrow> int \<Rightarrow> mutation_result" where
  "setDuration m fileId durMs =
     (case db m of
        None \<Rightarrow> (m, None)
      | Some d \<Rightarrow>
          (m\<lparr> db := Some (update_file_rows fileId (\<lambda>f. f\<lparr> f_duration_ms := durMs \<rparr>) d) \<rparr>, None))"

definition setLastPlayed :: "host \<Rightarrow> manager \<Rightarrow> int \<Rightarrow> mutation_result" where
  "setLastPlayed h m fileId =
     (case db m of
        None \<Rightarrow> (m, None)
      | Some d \<Rightarrow>
          (m\<lparr> db := Some (update_file_rows fileId
                  (\<lambda>f. f\<lparr> f_last_played := Some (date_now h),
                          f_play_count := f_play_count f + 1 \<rparr>) d) \<rparr>, None))"

text \<open>\<^verbatim>\<open>INSERT INTO tags (name) VALUES (?)\<close>: \<^verbatim>\<open>name\<close> is UNIQUE.\<close>

definition insert_tag :: "database \<Rightarrow> string \<Rightarrow> db_error + (database \<times> int)" where
  "insert_tag d tagName =
     (if \<exists>t \<in> set (tags_table d). t_name t = tagName then Inl UniqueViolation
      else
        let i = next_rowid (seq_tags d) (map t_id (tags_table d))
        in Inr (d\<lparr> tags_table := tags_table d @ [\<lparr> t_id = i, t_name = tagName \<rparr>],
                  seq_tags := i \<rparr>, i))"

text \<open>
  \<^verbatim>\<open>INSERT OR IGNORE INTO file_tags (file_id, tag_id) VALUES (?, ?)\<close>: a conflict with
  \<^verbatim>\<open>UNIQUE(file_id, tag_id)\<close> skips the row; the conflict clause does not cover the
  foreign keys, which \<^verbatim>\<open>PRAGMA foreign_keys = ON\<close> enforces.
\<close>

definition insert_or_ignore_file_tag :: "database \<Rightarrow> int \<Rightarrow> int \<Rightarrow> db_error + database" where
  "insert_or_ignore_file_tag d fileId tagId =
     (if \<exists>ft \<in> set (file_tags d). ft_file_id ft = fileId \<and> ft_tag_id ft = tagId then Inr d
      else if \<not> (\<exists>f \<in> set (files d). f_id f = fileId) \<or>
              \<not> (\<exists>t \<in> set (tags_table d). t_id t = tagId) then Inl ForeignKeyViolation
      else
        let i = next_rowid (seq_file_tags d) (map ft_id (file_tags d))
        in Inr (d\<lparr> file_tags := file_tags d @ [\<lparr> ft_id = i, ft_file_id = fileId, ft_tag_id = tagId \<rparr>],
                  seq_file_tags := i \<rparr>))"

text \<open>
  \<^verbatim>\<open>tagRow?.id\<close> followed by \<^verbatim>\<open>if (!tagId)\<close>: no row, or a row whose id is 0, takes the
  insert branch.
\<close>

definition toggleTag :: "manager \<Rightarrow> int \<Rightarrow> string \<Rightarrow> mutation_result" where
  "toggleTag m fileId tagName =
     (case db m of
        None \<Rightarrow> (m, None)
      | Some d \<Rightarrow>
          (case (case find (\<lambda>t. t_name t = tagName) (tags_table d) of
                   None \<Rightarrow> insert_tag d tagName
                 | Some tagRow \<Rightarrow>
                     if t_id tagRow = 0 then insert_tag d tagName else Inr (d, t_id tagRow)) of
             Inl e \<Rightarrow> (m, Some e)
           | Inr (d1, tagId) \<Rightarrow>
               (case find (\<lambda>ft. ft_file_id ft = fileId \<and> ft_tag_id ft = tagId) (file_tags d1) of
                  Some existing \<Rightarrow>
                    (m\<lparr> db := Some (d1\<lparr> file_tags :=
                           filter (\<lambda>ft. ft_id ft \<noteq> ft_id existing) (file_tags d1) \<rparr>) \<rparr>, None)
                | None \<Rightarrow>
                    (case insert_or_ignore_file_tag d1 fileId tagId of
                       Inl e \<Rightarrow> (m\<lparr> db := Some d1 \<rparr>, Some e)
                     | Inr d2 \<Rightarrow> (m\<lparr> db := Some d2 \<rparr>, None)))))"

text \<open>
  \<^verbatim>\<open>UPDATE file_playlists SET order_index = ? WHERE file_id = ? AND playlist_id = ?\<close>,
  run for each id with its position, in one transaction.
\<close>

definition update_order_index :: "int \<Rightarrow> int \<Rightarrow> int \<Rightarrow> database \<Rightarrow> database" where
  "update_order_index playlistId fileId k d =
     d\<lparr> file_playlists :=
          map (\<lambda>fp. if fp_file_id fp = fileId \<and> fp_playlist_id fp = playlistId
                     then fp\<lparr> fp_order_index := Some k \<rparr> else fp) (file_playlists d) \<rparr>"

fun saveOrder_each :: "int \<Rightarrow> int \<Rightarrow> int list \<Rightarrow> database \<Rightarrow> database" where
  "saveOrder_each playlistId k [] d = d"
| "saveOrder_each playlistId k (i # ids) d =
     saveOrder_each playlistId (k + 1) ids (update_order_index playlistId i k d)"

definition saveOrder :: "manager \<Rightarrow> int list \<Rightarrow> mutation_result" where
  "saveOrder m fileIds =
     (case db m of
        None \<Rightarrow> (m, None)
      | Some d \<Rightarrow> (m\<lparr> db := Some (saveOrder_each (libraryPlaylistId m) 0 fileIds d) \<rparr>, None))"

section \<open>The filesystem walk (library.ts, collectFiles)\<close>

text \<open>
  What \<^verbatim>\<open>readdirSync\<close> and \<^verbatim>\<open>statSync\<close> see below the root: a regular file with the
  result of its stat (none when the call throws), a directory with its entries, a
  directory whose listing throws, and any other kind of entry (a symbolic link, a socket),
  for which both \<^verbatim>\<open>isDirectory()\<close> and \<^verbatim>\<open>isFile()\<close> are false.
\<close>

record file_stat =
  st_size :: int
  st_mtimeMs :: int
  st_birthtimeMs :: int

datatype fs_node =
  RegularFile "file_stat option"
  | Directory "(string \<times> fs_node) list"
  | UnreadableDirectory
  | OtherEntry

record ScannedFile =
  relativePath :: string
  sf_name :: string
  sf_ext :: string
  sf_size :: int
  sf_mtime :: int
  sf_createdMs :: int

definition VIDEO_EXTENSIONS :: "string list" where
  "VIDEO_EXTENSIONS = [''.mov'', ''.avi'', ''.mp4'', ''.webm'', ''.mkv'']"

definition isVideoFile :: "host \<Rightarrow> string \<Rightarrow> bool" where
  "isVideoFile h filePath = (toLowerCase h (path_extname h filePath) \<in> set VIDEO_EXTENSIONS)"

fun isDirectory :: "fs_node \<Rightarrow> bool" where
  "isDirectory (Directory es) = True"
| "isDirectory UnreadableDirectory = True"
| "isDirectory n = False"

text \<open>
  One round of the \<^verbatim>\<open>for\<close> loop over the entries of a directory, on the pair of the
  stack (top first) and the results; then the loop.
\<close>

definition scan_entry ::
  "host \<Rightarrow> string \<Rightarrow> string \<Rightarrow> string \<times> fs_node \<Rightarrow>
   (string \<times> fs_node) list \<times> ScannedFile list \<Rightarrow>
   db_error + ((string \<times> fs_node) list \<times> ScannedFile list)" where
  "scan_entry h r current entry acc =
     (if fst entry = ''.cache'' then Inr acc
      else
        let fullPath = path_join h current (fst entry)
        in if isDirectory (snd entry) then Inr ((fullPath, snd entry) # fst acc, snd acc)
           else (case snd entry of
                   RegularFile st \<Rightarrow>
                     if \<not> isVideoFile h fullPath then Inr acc
                     else (case st of
                             None \<Rightarrow> Inl StatError
                           | Some s \<Rightarrow>
                               Inr (fst acc,
                                    snd acc @
                                    [\<lparr> relativePath = path_relative h r fullPath,
                                       sf_name = path_basename h fullPath,
                                       sf_ext = toLowerCase h (path_extname h fullPath),
                                       sf_size = st_size s,
                                       sf_mtime = st_mtimeMs s,
                                       sf_createdMs = st_birthtimeMs s \<rparr>]))
                 | _ \<Rightarrow> Inr acc))"

fun scan_entries ::
  "host \<Rightarrow> string \<Rightarrow> string \<Rightarrow> (string \<times> fs_node) list \<Rightarrow>
   (string \<times> fs_node) list \<times> ScannedFile list \<Rightarrow>
   db_error + ((string \<times> fs_node) list \<times> ScannedFile list)" where
  "scan_entries h r current [] acc = Inr acc"
| "scan_entries h r current (entry # es) acc =
     (case scan_entry h r current entry acc of
        Inl e \<Rightarrow> Inl e
      | Inr acc' \<Rightarrow> scan_entries h r current es acc')"

definition stack_weight :: "(string \<times> fs_node) list \<Rightarrow> nat" where
  "stack_weight stack = sum_list (map (\<lambda>e. Suc (size (snd e))) stack)"

text \<open>
  The \<^verbatim>\<open>while (stack.length)\<close> loop: pop, skip a falsy (empty) path, list the directory,
  run the loop over its entries.
\<close>

function walk ::
  "host \<Rightarrow> string \<Rightarrow> (string \<times> fs_node) list \<Rightarrow> ScannedFile list \<Rightarrow>
   db_error + ScannedFile list" where
  "walk h r [] results = Inr results"
| "walk h r ((current, node) # stack) results =
     (if current = [] then walk h r stack results
      else (case node of
              Directory es \<Rightarrow>
                (case scan_entries h r current es (stack, results) of
                   Inl e \<Rightarrow> Inl e
                 | Inr acc \<Rightarrow> walk h r (fst acc) (snd acc))
            | _ \<Rightarrow> Inl ReadDirError))"
  by pat_completeness auto
termination
proof (relation "measure (\<lambda>(h, r, stack, results). stack_weight stack)")
  show "wf (measure (\<lambda>(h, r, stack, results). stack_weight stack))" by simp
next
  fix h :: host and r current :: string and node :: fs_node
    and stack :: "(string \<times> fs_node) list" and results :: "ScannedFile list"
  show "((h, r, stack, results), (h, r, (current, node) # stack, results))
        \<in> measure (\<lambda>(h, r, stack, results). stack_weight stack)"
    by (simp add: stack_weight_def)
next
  fix h :: host and r current :: string and node :: fs_node
    and stack :: "(string \<times> fs_node) list" and results :: "ScannedFile list"
    and es acc
  assume dir: "node = Directory es"
    and run: "scan_entries h r current es (stack, results) = Inr acc"
  have one: "stack_weight (fst b) \<le> stack_weight (fst a) + Suc (size (snd entry))"
    if "scan_entry h r current entry a = Inr b" for entry a b
    using that
    by (auto simp: scan_entry_def stack_weight_def Let_def
        split: if_splits fs_node.splits option.splits)
  have all: "stack_weight (fst b) \<le> stack_weight (fst a) + stack_weight xs"
    if "scan_entries h r current xs a = Inr b" for xs a b
    using that
  proof (induction xs arbitrary: a)
    case Nil
    then show ?case by simp
  next
    case (Cons entry xs)
    from Cons.prems obtain a1 where
      s1: "scan_entry h r current entry a = Inr a1" and
      s2: "scan_entries h r current xs a1 = Inr b"
      by (auto split: sum.splits)
    from one [OF s1] Cons.IH [OF s2] show ?case
      by (simp add: stack_weight_def)
  qed
  have below: "stack_weight xs \<le> size (Directory xs)" for xs
    by (induction xs) (auto simp: stack_weight_def)
  from all [OF run] have "stack_weight (fst acc) \<le> stack_weight stack + stack_weight es"
    by simp
  with below [of es] dir
  show "((h, r, fst acc, snd acc), (h, r, (current, node) # stack, results))
        \<in> measure (\<lambda>(h, r, stack, results). stack_weight stack)"
    by (simp add: stack_weight_def case_prod_beta)
qed

definition collectFiles :: "host \<Rightarrow> string \<Rightarrow> fs_node \<Rightarrow> db_error + ScannedFile list" where
  "collectFiles h r tree = walk h r [(r, tree)] []"

section \<open>The reconciling scan (library.ts, scanLibrary)\<close>

text \<open>
  The rows of \<^verbatim>\<open>SELECT f.id, f.path, fp.order_index FROM files f LEFT JOIN file_playlists fp\<close>.
\<close>

record existing_row =
  e_id :: int
  e_path :: string
  e_order_index :: "int option"

definition existing_rows :: "database \<Rightarrow> int \<Rightarrow> existing_row list" where
  "existing_rows d playlistId =
     concat (map (\<lambda>f. map (\<lambda>fp. \<lparr> e_id = f_id f, e_path = f_path f,
                                   e_order_index = (case fp of None \<Rightarrow> None
                                                    | Some a \<Rightarrow> fp_order_index a) \<rparr>)
                          (left_join (memberships_of d playlistId (f_id f))))
              (files_by_id d))"

text \<open>The \<^verbatim>\<open>Map\<close> filled by \<^verbatim>\<open>existing.forEach\<close>: a later row replaces an earlier one.\<close>

definition path_map :: "existing_row list \<Rightarrow> string \<Rightarrow> existing_row option" where
  "path_map existing = map_of (rev (map (\<lambda>row. (e_path row, row)) existing))"

text \<open>\<^verbatim>\<open>SELECT MAX(order_index) ... WHERE playlist_id = ?\<close>: NULL over no value.\<close>

definition max_order :: "database \<Rightarrow> int \<Rightarrow> int option" where
  "max_order d playlistId =
     (case concat (map (\<lambda>fp. case fp_order_index fp of None \<Rightarrow> [] | Some k \<Rightarrow> [k])
                     (filter (\<lambda>fp. fp_playlist_id fp = playlistId) (file_playlists d))) of
        [] \<Rightarrow> None
      | k # ks \<Rightarrow> Some (fold max ks k))"

text \<open>\<^verbatim>\<open>INSERT INTO files (...) VALUES (...)\<close>: \<^verbatim>\<open>path\<close> is UNIQUE.\<close>

definition insertFile :: "host \<Rightarrow> database \<Rightarrow> ScannedFile \<Rightarrow> db_error + (database \<times> int)" where
  "insertFile h d file =
     (if \<exists>f \<in> set (files d). f_path f = relativePath file then Inl UniqueViolation
      else
        let i = next_rowid (seq_files d) (map f_id (files d))
        in Inr (d\<lparr> files := files d @
                     [\<lparr> f_id = i, f_path = relativePath file, f_name = sf_name file,
                        f_ext = sf_ext file, f_duration_ms = 0, f_size = sf_size file,
                        f_mtime = sf_mtime file, f_created_ms = sf_createdMs file,
                        f_rating = 0, f_meta = None, f_added_on = date_now h,
                        f_last_played = None, f_play_count = 0, f_is_missing = 0 \<rparr>],
                  seq_files := i \<rparr>, i))"

definition updateFile :: "database \<Rightarrow> int \<Rightarrow> ScannedFile \<Rightarrow> database" where
  "updateFile d fileId file =
     update_file_rows fileId
       (\<lambda>f. f\<lparr> f_name := sf_name file, f_ext := sf_ext file, f_size := sf_size file,
               f_mtime := sf_mtime file, f_created_ms := sf_createdMs file,
               f_is_missing := 0 \<rparr>) d"

definition markMissing :: "database \<Rightarrow> int \<Rightarrow> database" where
  "markMissing d fileId = update_file_rows fileId (\<lambda>f. f\<lparr> f_is_missing := 1 \<rparr>) d"

text \<open>
  \<^verbatim>\<open>INSERT OR IGNORE INTO file_playlists (file_id, playlist_id, order_index)\<close>: a conflict
  with \<^verbatim>\<open>UNIQUE(file_id, playlist_id)\<close> skips the row; the foreign keys are enforced.
\<close>

definition insertFilePlaylist :: "database \<Rightarrow> int \<Rightarrow> int \<Rightarrow> int \<Rightarrow> db_error + database" where
  "insertFilePlaylist d fileId playlistId k =
     (if \<exists>fp \<in> set (file_playlists d). fp_file_id fp = fileId \<and> fp_playlist_id fp = playlistId
      then Inr d
      else if \<not> (\<exists>f \<in> set (files d). f_id f = fileId) \<or>
              \<not> (\<exists>p \<in> set (playlists d). p_id p = playlistId) then Inl ForeignKeyViolation
      else
        let i = next_rowid (seq_file_playlists d) (map fp_id (file_playlists d))
        in Inr (d\<lparr> file_playlists := file_playlists d @
                     [\<lparr> fp_id = i, fp_file_id = fileId, fp_playlist_id = playlistId,
                        fp_order_index = Some k \<rparr>],
                  seq_file_playlists := i \<rparr>))"

text \<open>The variables of the transaction body; \<^verbatim>\<open>seenIds\<close> is a set, kept without repetition.\<close>

record scan_state =
  s_db :: database
  s_nextOrder :: int
  s_added :: int
  s_updated :: int
  s_seenIds :: "int list"

definition seen_add :: "int \<Rightarrow> int list \<Rightarrow> int list" where
  "seen_add i seen = (if i \<in> set seen then seen else seen @ [i])"

text \<open>One round of \<^verbatim>\<open>for (const file of files)\<close>.\<close>

definition scan_file ::
  "host \<Rightarrow> int \<Rightarrow> (string \<Rightarrow> existing_row option) \<Rightarrow> ScannedFile \<Rightarrow> scan_state \<Rightarrow>
   db_error + scan_state" where
  "scan_file h playlistId mp file s =
     (case mp (relativePath file) of
        None \<Rightarrow>
          (case insertFile h (s_db s) file of
             Inl e \<Rightarrow> Inl e
           | Inr (d1, fileId) \<Rightarrow>
               (case insertFilePlaylist d1 fileId playlistId (s_nextOrder s) of
                  Inl e \<Rightarrow> Inl e
                | Inr d2 \<Rightarrow>
                    Inr (s\<lparr> s_db := d2, s_nextOrder := s_nextOrder s + 1,
                            s_added := s_added s + 1,
                            s_seenIds := seen_add fileId (s_seenIds s) \<rparr>)))
      | Some existingRow \<Rightarrow>
          (let d1 = updateFile (s_db s) (e_id existingRow) file
           in if e_order_index existingRow = None
              then (case insertFilePlaylist d1 (e_id existingRow) playlistId (s_nextOrder s) of
                      Inl e \<Rightarrow> Inl e
                    | Inr d2 \<Rightarrow>
                        Inr (s\<lparr> s_db := d2, s_nextOrder := s_nextOrder s + 1,
                                s_updated := s_updated s + 1,
                                s_seenIds := seen_add (e_id existingRow) (s_seenIds s) \<rparr>))
              else Inr (s\<lparr> s_db := d1, s_updated := s_updated s + 1,
                           s_seenIds := seen_add (e_id existingRow) (s_seenIds s) \<rparr>)))"

fun scan_files ::
  "host \<Rightarrow> int \<Rightarrow> (string \<Rightarrow> existing_row option) \<Rightarrow> ScannedFile list \<Rightarrow> scan_state \<Rightarrow>
   db_error + scan_state" where
  "scan_files h playlistId mp [] s = Inr s"
| "scan_files h playlistId mp (file # rest) s =
     (case scan_file h playlistId mp file s of
        Inl e \<Rightarrow> Inl e
      | Inr s' \<Rightarrow> scan_files h playlistId mp rest s')"

text \<open>\<^verbatim>\<open>for (const row of existing) if (!seenIds.has(row.id)) markMissing.run(row.id)\<close>\<close>

fun mark_unseen :: "int list \<Rightarrow> existing_row list \<Rightarrow> database \<Rightarrow> database" where
  "mark_unseen seen [] d = d"
| "mark_unseen seen (row # rows) d =
     mark_unseen seen rows (if e_id row \<in> set seen then d else markMissing d (e_id row))"

record scan_counts =
  added :: int
  removed :: int
  updated :: int

text \<open>
  The body of scanLibrary after the walk. The transaction is all or nothing: an error
  leaves the catalog as it was, so the error result carries no state.
\<close>

definition reconcile ::
  "host \<Rightarrow> manager \<Rightarrow> ScannedFile list \<Rightarrow> db_error + (manager \<times> scan_counts)" where
  "reconcile h m scanned =
     (let d = the (db m);
          playlistId = libraryPlaylistId m;
          existing = existing_rows d playlistId;
          mp = path_map existing;
          nextOrder = (case max_order d playlistId of None \<Rightarrow> 0 | Some k \<Rightarrow> k) + 1
      in case scan_files h playlistId mp scanned
                \<lparr> s_db = d, s_nextOrder = nextOrder, s_added = 0, s_updated = 0,
                  s_seenIds = [] \<rparr> of
           Inl e \<Rightarrow> Inl e
         | Inr s \<Rightarrow>
             Inr (m\<lparr> db := Some (mark_unseen (s_seenIds s) existing (s_db s)) \<rparr>,
                  \<lparr> added = s_added s,
                    removed = int (length existing) - int (length (s_seenIds s)),
                    updated = s_updated s \<rparr>))"

definition scanLibrary ::
  "host \<Rightarrow> fs_node \<Rightarrow> manager \<Rightarrow> db_error + (manager \<times> scan_counts)" where
  "scanLibrary h tree m =
     (if not_open m then Inr (m, \<lparr> added = 0, removed = 0, updated = 0 \<rparr>)
      else (case collectFiles h (the (root_dir m)) tree of
              Inl e \<Rightarrow> Inl e
            | Inr scanned \<Rightarrow> reconcile h m scanned))"

section \<open>The words of the specification\<close>

text \<open>The tag names a file carries: the names of the tags its associations point to.\<close>

definition tags_of_file :: "database \<Rightarrow> int \<Rightarrow> string list" where
  "tags_of_file d fid =
     concat (map (\<lambda>ft. map t_name (filter (\<lambda>t. t_id t = ft_tag_id ft) (tags_table d)))
              (filter (\<lambda>ft. ft_file_id ft = fid) (file_tags d)))"

text \<open>
  The effective seed as the specification describes it: the magnitude of the truncated
  seed, and 1 for a missing seed, for zero and for a fraction below one.
\<close>

definition normalized_seed :: "rat option \<Rightarrow> int" where
  "normalized_seed s =
     (case s of
        None \<Rightarrow> 1
      | Some x \<Rightarrow> if x = 0 \<or> \<bar>x\<bar> < 1 then 1 else \<bar>math_trunc x\<bar>)"

section \<open>A small catalog\<close>

definition ex_file :: "int \<Rightarrow> string \<Rightarrow> int \<Rightarrow> int \<Rightarrow> file_row" where
  "ex_file i p r miss =
     \<lparr> f_id = i, f_path = p, f_name = p, f_ext = ''.mp4'', f_duration_ms = 0, f_size = 10,
       f_mtime = 5, f_created_ms = 7, f_rating = r, f_meta = None, f_added_on = 1,
       f_last_played = None, f_play_count = 0, f_is_missing = miss \<rparr>"

definition ex_db :: database where
  "ex_db =
     \<lparr> files = [ex_file 1 ''a.mp4'' 0 0, ex_file 2 ''b.mp4'' 3 0, ex_file 3 ''c.mp4'' 5 1,
                ex_file 4 ''d.mp4'' 4 0, ex_file 5 ''e.mp4'' 1 0],
       playlists = [\<lparr> p_id = 1, p_name = ''Library'' \<rparr>],
       file_playlists =
         [\<lparr> fp_id = 1, fp_file_id = 1, fp_playlist_id = 1, fp_order_index = Some 1 \<rparr>,
          \<lparr> fp_id = 2, fp_file_id = 2, fp_playlist_id = 1, fp_order_index = Some 2 \<rparr>,
          \<lparr> fp_id = 3, fp_file_id = 3, fp_playlist_id = 1, fp_order_index = Some 3 \<rparr>,
          \<lparr> fp_id = 4, fp_file_id = 4, fp_playlist_id = 1, fp_order_index = Some 4 \<rparr>,
          \<lparr> fp_id = 5, fp_file_id = 5, fp_playlist_id = 1, fp_order_index = Some 5 \<rparr>],
       tags_table =
         [\<lparr> t_id = 1, t_name = ''a'' \<rparr>, \<lparr> t_id = 2, t_name = ''b'' \<rparr>,
          \<lparr> t_id = 3, t_name = ''c'' \<rparr>, \<lparr> t_id = 4, t_name = ''d'' \<rparr>],
       file_tags =
         [\<lparr> ft_id = 1, ft_file_id = 1, ft_tag_id = 1 \<rparr>,
          \<lparr> ft_id = 2, ft_file_id = 1, ft_tag_id = 2 \<rparr>,
          \<lparr> ft_id = 3, ft_file_id = 1, ft_tag_id = 3 \<rparr>,
          \<lparr> ft_id = 4, ft_file_id = 2, ft_tag_id = 1 \<rparr>],
       seq_files = 5, seq_file_playlists = 5, seq_tags = 4, seq_file_tags = 4 \<rparr>"

definition ex_host :: host where
  "ex_host =
     \<lparr> path_join = (\<lambda>a b. a @ ''/'' @ b),
       path_relative = (\<lambda>a b. drop (length a + 1) b),
       path_basename = (\<lambda>p. rev (takeWhile (\<lambda>c. c \<noteq> CHR ''/'') (rev p))),
       path_extname = (\<lambda>p. if CHR ''.'' \<in> set p then CHR ''.'' # rev (takeWhile (\<lambda>c. c \<noteq> CHR ''.'') (rev p)) else []),
       toLowerCase = nocase,
       pathToFileURL = (\<lambda>p. ''file://'' @ p),
       getThumbnailPath = (\<lambda>r p. r @ ''/.cache/thumbnails/'' @ p @ ''.jpg''),
       existsSync = (\<lambda>p. False),
       date_now = 1000 \<rparr>"

definition ex_manager :: manager where
  "ex_manager = \<lparr> root_dir = Some ''/lib'', db = Some ex_db, libraryPlaylistId = 1 \<rparr>"

definition ex_request :: "string list \<Rightarrow> PlaylistRequest" where
  "ex_request ts =
     \<lparr> sort_mode = Playlist, ratingMin = 0, tags = ts, limit = None, offset = None, seed = None \<rparr>"

definition ex_random :: PlaylistRequest where
  "ex_random = (ex_request [])\<lparr> sort_mode := Random, seed := Some (- 5 / 2) \<rparr>"

definition ex_stat :: "file_stat option" where
  "ex_stat = Some \<lparr> st_size = 10, st_mtimeMs = 5, st_birthtimeMs = 7 \<rparr>"

definition ex_tree :: fs_node where
  "ex_tree =
     Directory
       [(''a.mp4'', RegularFile ex_stat),
        (''notes.txt'', RegularFile ex_stat),
        (''.cache'', Directory [(''t.mp4'', RegularFile ex_stat)]),
        (''link'', OtherEntry),
        (''sub'', Directory [(''d.MKV'', RegularFile ex_stat)])]"

definition ex_order :: "int list" where
  "ex_order = [3, 1, 2]"

text \<open>The first three files of the small catalog, with their memberships: file 3 is missing.\<close>

definition ex_small :: manager where
  "ex_small =
     ex_manager\<lparr> db := Some (ex_db\<lparr> files := take 3 (files ex_db),
                                      file_playlists := take 3 (file_playlists ex_db) \<rparr>) \<rparr>"

section \<open>When the walk raises\<close>

text \<open>
  Whether listing the directory at a path, with all that lies below it, raises: the path is
  not the empty string, and the node is no readable directory, or one of its entries outside
  \<^verbatim>\<open>.cache\<close> is a directory that raises or a video file whose stat throws.
\<close>

definition stat_throws :: "host \<Rightarrow> string \<Rightarrow> string \<times> fs_node \<Rightarrow> bool" where
  "stat_throws h current entry =
     (fst entry \<noteq> ''.cache'' \<and> snd entry = RegularFile None \<and>
      isVideoFile h (path_join h current (fst entry)))"

function raises :: "host \<Rightarrow> string \<Rightarrow> fs_node \<Rightarrow> bool" where
  "raises h current node =
     (current \<noteq> [] \<and>
      (case node of
         Directory es \<Rightarrow>
           (\<exists>entry \<in> set es.
              stat_throws h current entry \<or>
              (fst entry \<noteq> ''.cache'' \<and> isDirectory (snd entry) \<and>
               raises h (path_join h current (fst entry)) (snd entry)))
       | _ \<Rightarrow> True))"
  by pat_completeness auto
termination
proof (relation "measure (\<lambda>(h, current, node). size node)")
  show "wf (measure (\<lambda>(h, current, node). size node))" by simp
next
  fix h :: host and current :: string and node :: fs_node and es entry
  assume dir: "node = Directory es" and mem: "entry \<in> set es"
  have "size (snd entry) < size (Directory xs)" if "entry \<in> set xs" for xs
    using that by (induction xs) auto
  from this [OF mem] dir have "size (snd entry) < size node" by simp
  then show "((h, path_join h current (fst entry), snd entry), (h, current, node))
             \<in> measure (\<lambda>(h, current, node). size node)"
    by simp
qed

declare raises.simps [simp del]

definition ex_locked :: fs_node where
  "ex_locked =
     Directory [(''a.mp4'', RegularFile ex_stat), (''locked'', UnreadableDirectory)]"

text \<open>The directory entries that one run of the entry loop pushes on the stack.\<close>

definition pushed :: "host \<Rightarrow> string \<Rightarrow> (string \<times> fs_node) list \<Rightarrow> (string \<times> fs_node) set" where
  "pushed h current es =
     {(path_join h current (fst entry), snd entry) | entry.
        entry \<in> set es \<and> fst entry \<noteq> ''.cache'' \<and> isDirectory (snd entry)}"

section \<open>Invariants of the catalog and of the scan\<close>

text \<open>
  The constraints of the schema that the scan relies on: the primary key of \<^verbatim>\<open>files\<close>,
  \<^verbatim>\<open>path UNIQUE\<close> and \<^verbatim>\<open>UNIQUE(file_id, playlist_id)\<close>.
\<close>

definition schema_ok :: "database \<Rightarrow> bool" where
  "schema_ok d =
     (distinct (map f_id (files d)) \<and> distinct (map f_path (files d)) \<and>
      distinct (map (\<lambda>fp. (fp_file_id fp, fp_playlist_id fp)) (file_playlists d)))"

text \<open>An open catalog whose manager holds the id of a row of \<^verbatim>\<open>playlists\<close>, as setRoot leaves it.\<close>

definition catalog_ok :: "manager \<Rightarrow> bool" where
  "catalog_ok m =
     (\<not> not_open m \<and> schema_ok (the (db m)) \<and>
      libraryPlaylistId m \<in> p_id ` set (playlists (the (db m))))"

text \<open>The columns of a file row that no scan writes.\<close>

definition row_key ::
  "file_row \<Rightarrow> int \<times> string \<times> int \<times> int \<times> string option \<times> int \<times> int option \<times> int" where
  "row_key f =
     (f_id f, f_path f, f_rating f, f_duration_ms f, f_meta f, f_added_on f, f_last_played f,
      f_play_count f)"

text \<open>
  A later catalog state keeps an earlier one: the rows of \<^verbatim>\<open>files\<close> and of
  \<^verbatim>\<open>file_playlists\<close> are all still there, in place, with the columns above as they were;
  tags, associations and playlists are the same.
\<close>

definition keeps :: "database \<Rightarrow> database \<Rightarrow> bool" where
  "keeps d d' =
     ((\<exists>extra. map row_key (files d') = map row_key (files d) @ extra) \<and>
      (\<exists>extra. map (\<lambda>fp. (fp_file_id fp, fp_playlist_id fp)) (file_playlists d') =
               map (\<lambda>fp. (fp_file_id fp, fp_playlist_id fp)) (file_playlists d) @ extra) \<and>
      file_tags d' = file_tags d \<and> tags_table d' = tags_table d \<and>
      playlists d' = playlists d)"

text \<open>What the loop of the scan has established for the files it went through.\<close>

definition seen_rows :: "int \<Rightarrow> database \<Rightarrow> string set \<Rightarrow> int list \<Rightarrow> bool" where
  "seen_rows p d paths seen =
     (\<forall>x \<in> paths. \<exists>f \<in> set (files d).
        f_path f = x \<and> f_is_missing f = 0 \<and> f_id f \<in> set seen \<and>
        memberships_of d p (f_id f) \<noteq> [])"

definition seen_from :: "database \<Rightarrow> string set \<Rightarrow> int list \<Rightarrow> bool" where
  "seen_from d paths seen =
     (\<forall>i \<in> set seen. \<exists>f \<in> set (files d). f_id f = i \<and> f_path f \<in> paths)"

definition scan_inv :: "int \<Rightarrow> database \<Rightarrow> ScannedFile list \<Rightarrow> scan_state \<Rightarrow> bool" where
  "scan_inv p d0 prev s =
     (schema_ok (s_db s) \<and> keeps d0 (s_db s) \<and>
      f_path ` set (files (s_db s)) = f_path ` set (files d0) \<union> relativePath ` set prev \<and>
      seen_rows p (s_db s) (relativePath ` set prev) (s_seenIds s) \<and>
      seen_from (s_db s) (relativePath ` set prev) (s_seenIds s) \<and>
      distinct (s_seenIds s) \<and> length (s_seenIds s) = length prev)"

definition settled :: "database \<Rightarrow> int \<Rightarrow> ScannedFile list \<Rightarrow> bool" where
  "settled d p scanned =
     (\<forall>sf \<in> set scanned. \<exists>f \<in> set (files d).
        f_path f = relativePath sf \<and> memberships_of d p (f_id f) \<noteq> [])"

definition ex_scanned :: "ScannedFile list" where
  "ex_scanned =
     [\<lparr> relativePath = ''a.mp4'', sf_name = ''a.mp4'', sf_ext = ''.mp4'', sf_size = 10,
        sf_mtime = 5, sf_createdMs = 7 \<rparr>,
      \<lparr> relativePath = ''sub/d.MKV'', sf_name = ''d.MKV'', sf_ext = ''.mkv'', sf_size = 10,
        sf_mtime = 5, sf_createdMs = 7 \<rparr>]"

definition ex_second_scan :: "db_error + (manager \<times> scan_counts)" where
  "ex_second_scan =
     (case scanLibrary ex_host ex_tree ex_manager of
        Inl e \<Rightarrow> Inl e
      | Inr r \<Rightarrow> scanLibrary ex_host ex_tree (fst r))"

definition ex_b :: file_row where
  "ex_b = ex_file 2 ''b.mp4'' 3 0"

definition ex_tree_back :: fs_node where
  "ex_tree_back = Directory [(''b.mp4'', RegularFile ex_stat)]"

definition ex_scanned_back :: "ScannedFile list" where
  "ex_scanned_back =
     [\<lparr> relativePath = ''b.mp4'', sf_name = ''b.mp4'', sf_ext = ''.mp4'', sf_size = 10,
        sf_mtime = 5, sf_createdMs = 7 \<rparr>]"

section \<open>Properties of the playlist query\<close>

subsection \<open>Sorting, joining and counting\<close>

lemma length_order_rows: "length (order_rows d p ob rows) = length rows"
  by (cases ob) (simp_all add: order_rows_def)

lemma set_order_rows: "set (order_rows d p ob rows) = set rows"
  by (cases ob) (simp_all add: order_rows_def)

lemma set_files_by_id: "set (files_by_id d) = set (files d)"
  by (simp add: files_by_id_def)

lemma set_left_join_Some: "Some x \<in> set (left_join xs) \<longleftrightarrow> x \<in> set xs"
  by (auto simp: left_join_def)

lemma left_join_nonempty: "left_join xs \<noteq> []"
  by (simp add: left_join_def)

lemma Some_in_map_left_join:
  "Some y \<in> set (map (map_option g) (left_join xs)) \<longleftrightarrow> y \<in> g ` set xs"
  by (cases xs) (auto simp: left_join_def)

lemma set_tag_side:
  "Some n \<in> set (tag_side d fid) \<longleftrightarrow> n \<in> set (tags_of_file d fid)"
proof -
  let ?fts = "filter (\<lambda>ft. ft_file_id ft = fid) (file_tags d)"
  let ?ts = "\<lambda>a. filter (\<lambda>t. t_id t = ft_tag_id a) (tags_table d)"
  have "Some n \<in> set (tag_side d fid) \<longleftrightarrow>
        (\<exists>a \<in> set ?fts. Some n \<in> set (map (map_option t_name) (left_join (?ts a))))"
    unfolding tag_side_def
    by (cases ?fts) (auto simp: left_join_def split: option.splits)
  also have "\<dots> \<longleftrightarrow> (\<exists>a \<in> set ?fts. n \<in> t_name ` set (?ts a))"
    by (simp only: Some_in_map_left_join)
  also have "\<dots> \<longleftrightarrow> n \<in> set (tags_of_file d fid)"
    unfolding tags_of_file_def by auto
  finally show ?thesis .
qed

lemma set_group_tag_names:
  "set (group_tag_names d p fid) = set (tags_of_file d fid)"
proof -
  have "left_join (memberships_of d p fid) \<noteq> []" by (rule left_join_nonempty)
  then obtain x where "x \<in> set (left_join (memberships_of d p fid))"
    by (cases "left_join (memberships_of d p fid)") auto
  then show ?thesis
    unfolding group_tag_names_def
    by (auto simp: set_tag_side [symmetric] split: option.splits)
qed

lemma count_distinct_in_card:
  "count_distinct_in names wanted = int (card (set names \<inter> set wanted))"
proof -
  have "set (filter (\<lambda>n. n \<in> set wanted) names) = set names \<inter> set wanted" by auto
  then show ?thesis
    unfolding count_distinct_in_def
    by (metis length_remdups_card_conv)
qed

lemma count_distinct_in_all:
  assumes "distinct wanted"
  shows "count_distinct_in names wanted = int (length wanted) \<longleftrightarrow> set wanted \<subseteq> set names"
proof -
  have fin: "finite (set wanted)" by simp
  have len: "length wanted = card (set wanted)" using assms by (simp add: distinct_card)
  have sub: "set names \<inter> set wanted \<subseteq> set wanted" by blast
  have "card (set names \<inter> set wanted) = card (set wanted) \<longleftrightarrow> set names \<inter> set wanted = set wanted"
    using card_subset_eq [OF fin sub] by auto
  then show ?thesis
    by (auto simp: count_distinct_in_card len)
qed

lemma buildOrderBy_page:
  "buildOrderBy (options\<lparr>limit := l\<rparr>) = buildOrderBy options"
  "buildOrderBy (options\<lparr>offset := k\<rparr>) = buildOrderBy options"
  by (simp_all add: buildOrderBy_def split: SortMode.split)

lemma buildPlaylistQueryParts_page:
  "buildPlaylistQueryParts (options\<lparr>limit := l\<rparr>) = buildPlaylistQueryParts options"
  "buildPlaylistQueryParts (options\<lparr>offset := k\<rparr>) = buildPlaylistQueryParts options"
  by (simp_all add: buildPlaylistQueryParts_def buildOrderBy_page)

lemma items_unpaged:
  "\<not> not_open m \<Longrightarrow>
   set (map item_id (items (getPlaylist h m (options\<lparr>limit := None\<rparr>)))) =
   f_id ` set (base_groups (the (db m)) (libraryPlaylistId m) (buildPlaylistQueryParts options))"
  by (simp add: getPlaylist_def Let_def request_limit_def paginate_def
      buildPlaylistQueryParts_page set_order_rows to_item_def image_image)

lemma math_trunc_zero_iff: "math_trunc x = 0 \<longleftrightarrow> \<bar>x\<bar> < 1"
  unfolding math_trunc_def
  by (auto simp: floor_eq_iff ceiling_eq_iff abs_if)

lemma buildOrderBy_random:
  "sort_mode options = Random \<Longrightarrow>
   buildOrderBy options = OrderRandom (normalized_seed (seed options))"
  by (auto simp: buildOrderBy_def normalized_seed_def math_trunc_zero_iff Let_def
      math_trunc_def [of 1] split: option.splits)

lemma normalized_seed_pos: "normalized_seed s \<ge> 1"
proof (cases s)
  case None
  then show ?thesis by (simp add: normalized_seed_def)
next
  case (Some x)
  have "\<not> \<bar>x\<bar> < 1 \<Longrightarrow> math_trunc x \<noteq> 0" by (simp add: math_trunc_zero_iff)
  then show ?thesis using Some by (auto simp: normalized_seed_def)
qed

lemma getPlaylist_order_only:
  assumes "buildOrderBy (options\<lparr>seed := s\<rparr>) = buildOrderBy (options\<lparr>seed := s'\<rparr>)"
  shows "getPlaylist h m (options\<lparr>seed := s\<rparr>) = getPlaylist h m (options\<lparr>seed := s'\<rparr>)"
  using assms
  by (simp add: getPlaylist_def Let_def request_limit_def request_offset_def
      buildPlaylistQueryParts_def)

subsection \<open>The AND filter on tags\<close>

lemma items_unpaged_iff:
  assumes opened: "\<not> not_open m"
    and dist: "distinct (tags options)"
  shows "fid \<in> set (map item_id (items (getPlaylist h m (options\<lparr>limit := None\<rparr>)))) \<longleftrightarrow>
         (\<exists>f \<in> set (files (the (db m))).
            f_id f = fid \<and> f_is_missing f = 0 \<and>
            (ratingMin options > 0 \<longrightarrow> f_rating f \<ge> ratingMin options) \<and>
            set (tags options) \<subseteq> set (tags_of_file (the (db m)) fid))"
proof -
  let ?d = "the (db m)" and ?p = "libraryPlaylistId m"
  let ?q = "buildPlaylistQueryParts options"
  have w: "where_clause ?q f \<longleftrightarrow>
           f_is_missing f = 0 \<and> (ratingMin options > 0 \<longrightarrow> f_rating f \<ge> ratingMin options)" for f
    by (simp add: where_clause_def buildPlaylistQueryParts_def)
  have hv: "having_clause ?d ?p ?q f \<longleftrightarrow> set (tags options) \<subseteq> set (tags_of_file ?d (f_id f))" for f
    using count_distinct_in_all [OF dist, of "group_tag_names ?d ?p (f_id f)"]
    by (simp add: having_clause_def buildPlaylistQueryParts_def set_group_tag_names)
  show ?thesis
    unfolding items_unpaged [OF opened]
    by (auto simp: base_groups_def set_files_by_id w hv)
qed

text \<open>
  C1, as the code has it. Take an open catalog and a request whose tag list names no tag
  twice. With pagination removed, getPlaylist returns a file exactly when the file is not
  flagged missing, passes the rating filter (when ratingMin is positive) and carries every
  requested tag name; for the empty tag list that is every non-missing file that passes
  the rating filter. The HAVING clause compares the number of distinct requested names
  found among the file's tags with the length of the requested list.
\<close>

theorem and_tag_filter:
  assumes opened: "\<not> not_open m"
    and dist: "distinct (tags options)"
  shows "fid \<in> set (map item_id (items (getPlaylist h m (options\<lparr>limit := None\<rparr>)))) \<longleftrightarrow>
         (\<exists>f \<in> set (files (the (db m))).
            f_id f = fid \<and> f_is_missing f = 0 \<and>
            (ratingMin options > 0 \<longrightarrow> f_rating f \<ge> ratingMin options) \<and>
            set (tags options) \<subseteq> set (tags_of_file (the (db m)) fid))"
  using assms by (rule items_unpaged_iff)

text \<open>
  On the small catalog, file 1 carries a, b and c: the request for a and b returns it, the
  request for a and d does not.
\<close>

theorem and_tag_filter_witness:
  "\<not> not_open ex_manager \<and> distinct [''a'', ''b''] \<and>
   1 \<in> set (map item_id (items (getPlaylist ex_host ex_manager
                                  ((ex_request [''a'', ''b''])\<lparr>limit := None\<rparr>)))) \<and>
   1 \<notin> set (map item_id (items (getPlaylist ex_host ex_manager
                                  ((ex_request [''a'', ''d''])\<lparr>limit := None\<rparr>))))"
proof -
  have o: "\<not> not_open ex_manager" by code_simp
  have d1: "distinct (tags (ex_request [''a'', ''b'']))" by code_simp
  have d2: "distinct (tags (ex_request [''a'', ''d'']))" by code_simp
  have r1: "\<exists>f \<in> set (files (the (db ex_manager))).
              f_id f = 1 \<and> f_is_missing f = 0 \<and>
              (ratingMin (ex_request [''a'', ''b'']) > 0
                 \<longrightarrow> f_rating f \<ge> ratingMin (ex_request [''a'', ''b''])) \<and>
              set (tags (ex_request [''a'', ''b''])) \<subseteq> set (tags_of_file (the (db ex_manager)) 1)"
    by code_simp
  have r2: "\<not> (\<exists>f \<in> set (files (the (db ex_manager))).
              f_id f = 1 \<and> f_is_missing f = 0 \<and>
              (ratingMin (ex_request [''a'', ''d'']) > 0
                 \<longrightarrow> f_rating f \<ge> ratingMin (ex_request [''a'', ''d''])) \<and>
              set (tags (ex_request [''a'', ''d''])) \<subseteq> set (tags_of_file (the (db ex_manager)) 1))"
    by code_simp
  from and_tag_filter [OF o d1, of 1 ex_host] and_tag_filter [OF o d2, of 1 ex_host] o r1 r2
  show ?thesis by simp
qed

text \<open>
  C1 as stated fails for a request that names a tag twice: the count of distinct names is
  compared with the length of the list, 2, and never reaches it. File 1 is not missing and
  carries every name of the set {a}, yet the request for [a, a] does not return it.
\<close>

theorem and_tag_filter_counterexample:
  "f_id (hd (files ex_db)) = 1 \<and> f_is_missing (hd (files ex_db)) = 0 \<and>
   set [''a'', ''a''] \<subseteq> set (tags_of_file ex_db 1) \<and>
   1 \<notin> set (map item_id (items (getPlaylist ex_host ex_manager (ex_request [''a'', ''a'']))))"
  by code_simp

subsection \<open>Total and pagination\<close>

text \<open>
  C4. The total of a response is the number of items the same request returns with the
  limit removed, and it is the same for every page (limit and offset) of the request.
\<close>

theorem total_matches_filter:
  "total_count (getPlaylist h m options) =
     int (length (items (getPlaylist h m (options\<lparr>limit := None\<rparr>)))) \<and>
   total_count (getPlaylist h m (options\<lparr>limit := l, offset := k\<rparr>)) =
     total_count (getPlaylist h m options)"
  by (simp add: getPlaylist_def Let_def request_limit_def paginate_def
      buildPlaylistQueryParts_page length_order_rows)

theorem total_matches_filter_witness:
  "total_count (getPlaylist ex_host ex_manager ((ex_request [])\<lparr>limit := Some 2, offset := Some 2\<rparr>)) = 4 \<and>
   length (items (getPlaylist ex_host ex_manager ((ex_request [])\<lparr>limit := None\<rparr>))) = 4"
proof -
  have "total_count (getPlaylist ex_host ex_manager (ex_request [])) = 4" by code_simp
  with total_matches_filter [of ex_host ex_manager "ex_request []" "Some 2" "Some 2"]
  show ?thesis by simp
qed

text \<open>
  C2. For any catalog, filter, sort mode and seed, the page at offset 0 of limit 2 followed
  by the page at offset 2 of limit 2 is the page at offset 0 of limit 4.
\<close>

theorem pagination_composes:
  "items (getPlaylist h m (options\<lparr>offset := Some 0, limit := Some 2\<rparr>)) @
   items (getPlaylist h m (options\<lparr>offset := Some 2, limit := Some 2\<rparr>)) =
   items (getPlaylist h m (options\<lparr>offset := Some 0, limit := Some 4\<rparr>))"
proof -
  have t: "take 2 xs @ take 2 (drop 2 xs) = take 4 xs" for xs :: "'a list"
    using take_add [of 2 2 xs] by simp
  show ?thesis
    by (simp add: getPlaylist_def Let_def request_limit_def request_offset_def paginate_def
      buildPlaylistQueryParts_page math_trunc_def t flip: map_append)
qed

theorem pagination_composes_witness:
  "map item_id (items (getPlaylist ex_host ex_manager (ex_random\<lparr>offset := Some 0, limit := Some 2\<rparr>))) @
   map item_id (items (getPlaylist ex_host ex_manager (ex_random\<lparr>offset := Some 2, limit := Some 2\<rparr>))) =
   [1, 2, 4, 5]"
proof -
  have "map item_id (items (getPlaylist ex_host ex_manager
          (ex_random\<lparr>offset := Some 0, limit := Some 4\<rparr>))) = [1, 2, 4, 5]"
    by code_simp
  with pagination_composes [of ex_host ex_manager ex_random]
  show ?thesis by (simp flip: map_append)
qed

text \<open>
  C9. When the limit is absent, zero or negative, every offset gives the response of
  offset 0, and that response holds the full filtered result: as many items as the total.
\<close>

theorem offset_ignored_without_limit:
  assumes "limit options = None \<or> (\<exists>l. limit options = Some l \<and> l \<le> 0)"
  shows "getPlaylist h m (options\<lparr>offset := Some k\<rparr>) = getPlaylist h m (options\<lparr>offset := Some 0\<rparr>) \<and>
         int (length (items (getPlaylist h m (options\<lparr>offset := Some k\<rparr>)))) =
           total_count (getPlaylist h m (options\<lparr>offset := Some k\<rparr>))"
  using assms
  by (auto simp: getPlaylist_def Let_def request_limit_def paginate_def
      buildPlaylistQueryParts_page length_order_rows)

theorem offset_ignored_without_limit_witness:
  "limit (ex_request []) = None \<and>
   getPlaylist ex_host ex_manager ((ex_request [])\<lparr>offset := Some 1\<rparr>) =
     getPlaylist ex_host ex_manager ((ex_request [])\<lparr>offset := Some 0\<rparr>) \<and>
   int (length (items (getPlaylist ex_host ex_manager ((ex_request [])\<lparr>offset := Some 1\<rparr>)))) = 4"
proof -
  have n: "limit (ex_request []) = None" by (simp add: ex_request_def)
  have l: "limit (ex_request []) = None \<or> (\<exists>l. limit (ex_request []) = Some l \<and> l \<le> 0)"
    by (simp add: ex_request_def)
  have t: "total_count (getPlaylist ex_host ex_manager ((ex_request [])\<lparr>offset := Some 1\<rparr>)) = 4"
    by code_simp
  from offset_ignored_without_limit [OF l, of ex_host ex_manager 1] t n
  show ?thesis by metis
qed

subsection \<open>The seed of the random order\<close>

text \<open>
  C10. In random mode the ORDER BY parameter is the effective seed of the specification:
  the magnitude of the truncated seed, 1 for a missing seed, for zero and for a fraction
  below one. It is at least 1, and the response depends on the seed only through it: two
  requests on the same catalog that differ in seeds of equal effective seed, in particular
  in no seed at all, get the same response.
\<close>

theorem random_order_deterministic:
  assumes "sort_mode options = Random"
  shows "buildOrderBy options = OrderRandom (normalized_seed (seed options)) \<and>
         normalized_seed (seed options) \<ge> 1 \<and>
         (\<forall>s'. normalized_seed s' = normalized_seed (seed options) \<longrightarrow>
            getPlaylist h m (options\<lparr>seed := s'\<rparr>) = getPlaylist h m options)"
proof (intro conjI allI impI)
  show "buildOrderBy options = OrderRandom (normalized_seed (seed options))"
    using assms by (rule buildOrderBy_random)
  show "normalized_seed (seed options) \<ge> 1" by (rule normalized_seed_pos)
next
  fix s' assume eq: "normalized_seed s' = normalized_seed (seed options)"
  have "buildOrderBy (options\<lparr>seed := s'\<rparr>) = buildOrderBy (options\<lparr>seed := seed options\<rparr>)"
    using assms eq by (simp add: buildOrderBy_random)
  from getPlaylist_order_only [OF this, of h m]
  show "getPlaylist h m (options\<lparr>seed := s'\<rparr>) = getPlaylist h m options" by simp
qed

theorem random_order_deterministic_witness:
  "sort_mode ex_random = Random \<and>
   buildOrderBy ex_random = OrderRandom 2 \<and>
   getPlaylist ex_host ex_manager (ex_random\<lparr>seed := Some 2\<rparr>) =
     getPlaylist ex_host ex_manager ex_random"
proof -
  have r: "sort_mode ex_random = Random" by (simp add: ex_random_def)
  have n1: "normalized_seed (seed ex_random) = 2" by code_simp
  have n2: "normalized_seed (Some 2) = normalized_seed (seed ex_random)" by code_simp
  from random_order_deterministic [OF r, of ex_host ex_manager] n1 n2 r
  show ?thesis by simp
qed

section \<open>Properties of the mutation API\<close>

subsection \<open>Mutations on an unknown id\<close>

lemma update_file_rows_unknown:
  assumes "fid \<notin> f_id ` set (files d)"
  shows "update_file_rows fid g d = d"
proof -
  have "map (\<lambda>f. if f_id f = fid then g f else f) (files d) = files d"
    using assms by (intro map_idI) auto
  then show ?thesis by (simp add: update_file_rows_def)
qed

lemma rows_matched_unknown:
  "fid \<notin> f_id ` set (files d) \<Longrightarrow> rows_matched fid d = 0"
  by (auto simp: rows_matched_def filter_empty_conv)

lemma insert_tag_keeps:
  "insert_tag d n = Inr (d1, i) \<Longrightarrow>
   files d1 = files d \<and> file_tags d1 = file_tags d \<and> file_playlists d1 = file_playlists d \<and>
   playlists d1 = playlists d"
  by (auto simp: insert_tag_def Let_def split: if_splits)

lemma insert_or_ignore_file_tag_unknown:
  assumes "fid \<notin> f_id ` set (files d)"
    and "fid \<notin> ft_file_id ` set (file_tags d)"
  shows "insert_or_ignore_file_tag d fid t = Inl ForeignKeyViolation"
  using assms by (auto simp: insert_or_ignore_file_tag_def)

lemma find_file_tag_unknown:
  "fid \<notin> ft_file_id ` set (file_tags d) \<Longrightarrow>
   find (\<lambda>ft. ft_file_id ft = fid \<and> ft_tag_id ft = t) (file_tags d) = None"
  by (auto simp: find_None_iff)

lemma toggleTag_unknown:
  assumes d: "db m = Some d"
    and unknown: "fid \<notin> f_id ` set (files d)"
    and fk: "ft_file_id ` set (file_tags d) \<subseteq> f_id ` set (files d)"
  shows "\<exists>m' e. toggleTag m fid n = (m', Some e) \<and>
           files (the (db m')) = files d \<and> file_tags (the (db m')) = file_tags d \<and>
           file_playlists (the (db m')) = file_playlists d"
proof -
  from unknown fk have nft: "fid \<notin> ft_file_id ` set (file_tags d)" by blast
  let ?pick = "case find (\<lambda>t. t_name t = n) (tags_table d) of
                 None \<Rightarrow> insert_tag d n
               | Some tagRow \<Rightarrow> if t_id tagRow = 0 then insert_tag d n else Inr (d, t_id tagRow)"
  show ?thesis
  proof (cases ?pick)
    case (Inl e)
    then show ?thesis using d by (simp add: toggleTag_def)
  next
    case (Inr p)
    obtain d1 tagId where p: "p = (d1, tagId)" by (cases p)
    have keep: "files d1 = files d \<and> file_tags d1 = file_tags d \<and>
                file_playlists d1 = file_playlists d"
      using Inr p insert_tag_keeps [of d n d1 tagId]
      by (auto split: option.splits if_splits)
    then have u1: "fid \<notin> f_id ` set (files d1)" and u2: "fid \<notin> ft_file_id ` set (file_tags d1)"
      using unknown nft by simp_all
    show ?thesis
      using d Inr p keep find_file_tag_unknown [OF u2]
        insert_or_ignore_file_tag_unknown [OF u1 u2]
      by (simp add: toggleTag_def)
  qed
qed

text \<open>
  C7, as the code has it. On a file id that has no row in the catalog, setRating,
  setDuration and setLastPlayed change no row, leave the catalog as it was and raise
  nothing. toggleTag does raise: the association it tries to insert is rejected (by the
  foreign key of file_tags, or by the unique tag name when the tag row found has id 0);
  the file rows, the associations and the memberships are as before the call.
\<close>

theorem mutation_on_unknown_id:
  assumes d: "db m = Some d"
    and unknown: "fid \<notin> f_id ` set (files d)"
    and fk: "ft_file_id ` set (file_tags d) \<subseteq> f_id ` set (files d)"
  shows "setRating m fid r = (m, None) \<and>
         setDuration m fid ms = (m, None) \<and>
         setLastPlayed h m fid = (m, None) \<and>
         rows_matched fid d = 0 \<and>
         (\<exists>m' e. toggleTag m fid n = (m', Some e) \<and>
            files (the (db m')) = files d \<and> file_tags (the (db m')) = file_tags d \<and>
            file_playlists (the (db m')) = file_playlists d)"
proof -
  have same: "m\<lparr>db := Some d\<rparr> = m" using d by simp
  show ?thesis
    using d same toggleTag_unknown [OF d unknown fk]
    by (simp add: setRating_def setDuration_def setLastPlayed_def
        update_file_rows_unknown [OF unknown] rows_matched_unknown [OF unknown])
qed

theorem mutation_on_unknown_id_witness:
  "db ex_manager = Some ex_db \<and> 99 \<notin> f_id ` set (files ex_db) \<and>
   ft_file_id ` set (file_tags ex_db) \<subseteq> f_id ` set (files ex_db) \<and>
   setRating ex_manager 99 5 = (ex_manager, None) \<and>
   snd (toggleTag ex_manager 99 ''a'') = Some ForeignKeyViolation"
proof -
  have a: "db ex_manager = Some ex_db" by (simp add: ex_manager_def)
  have b: "99 \<notin> f_id ` set (files ex_db)" by code_simp
  have c: "ft_file_id ` set (file_tags ex_db) \<subseteq> f_id ` set (files ex_db)" by code_simp
  have t: "snd (toggleTag ex_manager 99 ''a'') = Some ForeignKeyViolation" by code_simp
  from mutation_on_unknown_id [OF a b c, of 5] a b c t show ?thesis by simp
qed

text \<open>
  C7 as stated fails for toggleTag: on the small catalog, toggling the new tag x on the
  unknown id 99 raises the foreign key violation, after the tag row x has been written.
\<close>

theorem mutation_on_unknown_id_counterexample:
  "99 \<notin> f_id ` set (files ex_db) \<and>
   snd (toggleTag ex_manager 99 ''x'') = Some ForeignKeyViolation \<and>
   map t_name (tags_table (the (db (fst (toggleTag ex_manager 99 ''x''))))) =
     map t_name (tags_table ex_db) @ [''x'']"
  by code_simp

subsection \<open>Reordering\<close>

lemma filter_update_order:
  "filter (\<lambda>fp. fp_file_id fp = y \<and> fp_playlist_id fp = p)
     (map (\<lambda>fp. if fp_file_id fp = x \<and> fp_playlist_id fp = p
                then fp\<lparr> fp_order_index := Some k \<rparr> else fp) fps) =
   (if y = x
    then map (\<lambda>fp. fp\<lparr> fp_order_index := Some k \<rparr>)
           (filter (\<lambda>fp. fp_file_id fp = y \<and> fp_playlist_id fp = p) fps)
    else filter (\<lambda>fp. fp_file_id fp = y \<and> fp_playlist_id fp = p) fps)"
  by (induction fps) auto

lemma memberships_update_order_index:
  "memberships_of (update_order_index p x k d) p y =
     (if y = x then map (\<lambda>fp. fp\<lparr> fp_order_index := Some k \<rparr>) (memberships_of d p y)
      else memberships_of d p y)"
  by (simp add: memberships_of_def update_order_index_def filter_update_order)

lemma saveOrder_each_files: "files (saveOrder_each p k ids d) = files d"
  by (induction ids arbitrary: k d) (simp_all add: update_order_index_def)

lemma saveOrder_each_other:
  "y \<notin> set ids \<Longrightarrow> memberships_of (saveOrder_each p k ids d) p y = memberships_of d p y"
  by (induction ids arbitrary: k d) (simp_all add: memberships_update_order_index)

lemma saveOrder_each_listed:
  "distinct ids \<Longrightarrow> i < length ids \<Longrightarrow>
   memberships_of (saveOrder_each p k ids d) p (ids ! i) =
     map (\<lambda>fp. fp\<lparr> fp_order_index := Some (k + int i) \<rparr>) (memberships_of d p (ids ! i))"
proof (induction ids arbitrary: k d i)
  case Nil
  then show ?case by simp
next
  case (Cons x xs)
  show ?case
  proof (cases i)
    case 0
    with Cons.prems show ?thesis
      by (simp add: saveOrder_each_other memberships_update_order_index)
  next
    case (Suc j)
    with Cons.prems have j: "j < length xs" and ne: "xs ! j \<noteq> x" and dx: "distinct xs"
      by auto
    from Cons.IH [OF dx j, of "k + 1" "update_order_index p x k d"] ne Suc
    show ?thesis
      by (simp add: memberships_update_order_index add.assoc)
  qed
qed

lemma group_order_index_listed:
  assumes "distinct ids" "i < length ids" "memberships_of d p (ids ! i) \<noteq> []"
  shows "group_order_index (saveOrder_each p 0 ids d) p (ids ! i) = int i"
  using assms saveOrder_each_listed [of ids i p 0 d]
  by (cases "memberships_of d p (ids ! i)") (simp_all add: group_order_index_def)

lemma playlist_query_plain:
  assumes "\<not> not_open m" "sort_mode options = Playlist" "ratingMin options \<le> 0"
    "tags options = []" "limit options = None"
  shows "map item_id (items (getPlaylist h m options)) =
         map f_id (sort_key (\<lambda>f. (group_order_index (the (db m)) (libraryPlaylistId m) (f_id f), f_id f))
                    (filter (\<lambda>f. f_is_missing f = 0) (files_by_id (the (db m)))))"
  using assms
  by (simp add: getPlaylist_def Let_def buildPlaylistQueryParts_def buildOrderBy_def
      base_groups_def where_clause_def having_clause_def order_rows_def request_limit_def
      paginate_def to_item_def o_def)

lemma sorted_by_position:
  assumes "\<And>k. k < length ids \<Longrightarrow> g (ids ! k) = int k"
  shows "sorted (map (\<lambda>i. (g i, i)) (ids :: int list))"
proof -
  have "(g (ids ! a), ids ! a) \<le> (g (ids ! b), ids ! b)" if "a \<le> b" "b < length ids" for a b
  proof (cases "a = b")
    case True
    then show ?thesis by simp
  next
    case False
    with that have "a < b" "a < length ids" by simp_all
    with that assms [of a] assms [of b] show ?thesis by simp
  qed
  then show ?thesis by (simp add: sorted_iff_nth_mono)
qed

lemma sort_rows_by_listing:
  fixes rows :: "file_row list" and ids :: "int list"
  assumes df: "distinct (map f_id rows)"
    and di: "distinct ids"
    and sub: "f_id ` set rows \<subseteq> set ids"
    and pos: "\<And>k. k < length ids \<Longrightarrow> g (ids ! k) = int k"
  shows "map f_id (sort_key (\<lambda>f. (g (f_id f), f_id f)) rows) =
         filter (\<lambda>i. i \<in> f_id ` set rows) ids"
proof -
  let ?key = "\<lambda>f. (g (f_id f), f_id f)"
  let ?ids' = "filter (\<lambda>i. i \<in> f_id ` set rows) ids"
  let ?row = "the_inv_into (set rows) f_id"
  let ?ys = "map ?row ?ids'"
  have inj: "inj_on f_id (set rows)" using df by (simp add: distinct_map)
  have id_row: "f_id (?row i) = i" if "i \<in> f_id ` set rows" for i
    using that inj by (simp add: f_the_inv_into_f)
  have forth: "?row (f_id f) = f" if "f \<in> set rows" for f
    using that inj by (simp add: the_inv_into_f_f)
  have ids_ys: "map f_id ?ys = ?ids'"
    by (simp add: o_def id_row cong: map_cong) (rule map_idI, simp add: id_row)
  have set_ys: "set ?ys = set rows"
  proof
    show "set ?ys \<subseteq> set rows" using forth by auto
    show "set rows \<subseteq> set ?ys"
    proof
      fix f assume f: "f \<in> set rows"
      with sub have "f_id f \<in> set ?ids'" by auto
      then have "?row (f_id f) \<in> ?row ` set ?ids'" by (rule imageI)
      then have "?row (f_id f) \<in> set ?ys" by (simp only: set_map)
      with forth [OF f] show "f \<in> set ?ys" by simp
    qed
  qed
  have dist_ys: "distinct ?ys"
  proof -
    have "distinct (map f_id ?ys)" unfolding ids_ys using di by simp
    from this [unfolded distinct_map [of f_id "?ys"]] show ?thesis by (rule conjunct1)
  qed
  have dist_rows: "distinct rows" using df by (simp add: distinct_map)
  have ms: "mset rows = mset ?ys"
    using set_eq_iff_mset_eq_distinct [OF dist_rows dist_ys] set_ys by blast
  have ik: "inj_on ?key (set rows)"
    using inj by (auto simp: inj_on_def)
  have srt: "sorted (map (\<lambda>i. (g i, i)) ids)" using pos by (rule sorted_by_position)
  have km: "map ?key ?ys = map (\<lambda>i. (g i, i)) ?ids'"
    unfolding map_map by (rule map_cong [OF refl]) (simp add: id_row)
  have so: "sorted (map ?key ?ys)"
    unfolding km using srt by (rule sorted_filter)
  from sort_key_inj_key_eq [OF ms ik so] ids_ys show ?thesis by simp
qed

lemma distinct_ids_files_by_id:
  "distinct (map f_id (files d)) \<Longrightarrow> distinct (map f_id (files_by_id d))"
  by (simp add: files_by_id_def distinct_map)

text \<open>
  C6, as the code has it. Take an open catalog with a list of ids without repetition,
  every one of them a member of the default collection, and every file that is not missing
  among them. After saveOrder, every membership row of the k-th id has order index k, and
  the playlist order query without filter and limit returns the listed ids in the order of
  the list, those flagged missing left out.
\<close>

theorem saveOrder_dense:
  assumes d: "db m = Some d"
    and opened: "\<not> not_open m"
    and df: "distinct (map f_id (files d))"
    and di: "distinct ids"
    and members: "\<forall>i \<in> set ids. memberships_of d (libraryPlaylistId m) i \<noteq> []"
    and listed: "f_id ` {f \<in> set (files d). f_is_missing f = 0} \<subseteq> set ids"
    and opts: "sort_mode options = Playlist" "ratingMin options \<le> 0" "tags options = []"
      "limit options = None"
  shows "map item_id (items (getPlaylist h (fst (saveOrder m ids)) options)) =
           filter (\<lambda>i. i \<in> f_id ` {f \<in> set (files d). f_is_missing f = 0}) ids \<and>
         (\<forall>k < length ids.
            memberships_of (the (db (fst (saveOrder m ids)))) (libraryPlaylistId m) (ids ! k) \<noteq> [] \<and>
            (\<forall>fp \<in> set (memberships_of (the (db (fst (saveOrder m ids))))
                           (libraryPlaylistId m) (ids ! k)).
               fp_order_index fp = Some (int k)))"
proof -
  let ?p = "libraryPlaylistId m"
  let ?d' = "saveOrder_each ?p 0 ids d"
  let ?m' = "fst (saveOrder m ids)"
  let ?rows = "filter (\<lambda>f. f_is_missing f = 0) (files_by_id d)"
  have m': "?m' = m\<lparr> db := Some ?d' \<rparr>" using d by (simp add: saveOrder_def)
  have open': "\<not> not_open ?m'" using opened by (simp add: m' not_open_def)
  have fb: "files_by_id ?d' = files_by_id d"
    by (simp add: files_by_id_def saveOrder_each_files)
  have pos: "group_order_index ?d' ?p (ids ! k) = int k" if "k < length ids" for k
    using that members by (intro group_order_index_listed [OF di]) simp_all
  have dr: "distinct (map f_id ?rows)"
    using distinct_ids_files_by_id [OF df] by (rule distinct_map_filter)
  have sr: "set ?rows = {f \<in> set (files d). f_is_missing f = 0}"
    by (auto simp: set_files_by_id)
  have sub: "f_id ` set ?rows \<subseteq> set ids" using listed by (simp only: sr)
  have "map item_id (items (getPlaylist h ?m' options)) =
        map f_id (sort_key (\<lambda>f. (group_order_index ?d' ?p (f_id f), f_id f)) ?rows)"
    using playlist_query_plain [OF open' opts, of h] by (simp add: m' fb)
  also have "\<dots> = filter (\<lambda>i. i \<in> f_id ` set ?rows) ids"
    using dr di sub pos by (rule sort_rows_by_listing)
  finally have query: "map item_id (items (getPlaylist h ?m' options)) =
      filter (\<lambda>i. i \<in> f_id ` {f \<in> set (files d). f_is_missing f = 0}) ids"
    by (simp only: sr)
  have dense: "memberships_of (the (db ?m')) ?p (ids ! k) \<noteq> [] \<and>
      (\<forall>fp \<in> set (memberships_of (the (db ?m')) ?p (ids ! k)). fp_order_index fp = Some (int k))"
    if "k < length ids" for k
    using that members saveOrder_each_listed [OF di that, of ?p 0 d]
    by (auto simp: m')
  from query dense show ?thesis by blast
qed

theorem saveOrder_dense_witness:
  "db ex_manager = Some ex_db \<and> \<not> not_open ex_manager \<and> distinct (map f_id (files ex_db)) \<and>
   distinct [5, 3, 1, 4, 2 :: int] \<and>
   map item_id (items (getPlaylist ex_host (fst (saveOrder ex_manager [5, 3, 1, 4, 2]))
                        (ex_request []))) = [5, 1, 4, 2] \<and>
   map fp_order_index
     (memberships_of (the (db (fst (saveOrder ex_manager [5, 3, 1, 4, 2])))) 1 3) = [Some 1]"
proof -
  have a: "db ex_manager = Some ex_db" by (simp add: ex_manager_def)
  have b: "\<not> not_open ex_manager" by code_simp
  have c: "distinct (map f_id (files ex_db))" by code_simp
  have e: "distinct [5, 3, 1, 4, 2 :: int]" by simp
  have f: "\<forall>i \<in> set [5, 3, 1, 4, 2]. memberships_of ex_db (libraryPlaylistId ex_manager) i \<noteq> []"
    by code_simp
  have g: "f_id ` {f \<in> set (files ex_db). f_is_missing f = 0} \<subseteq> set [5, 3, 1, 4, 2]"
    by code_simp
  have o: "sort_mode (ex_request []) = Playlist" "ratingMin (ex_request []) \<le> 0"
    "tags (ex_request []) = []" "limit (ex_request []) = None"
    by (simp_all add: ex_request_def)
  have v: "filter (\<lambda>i. i \<in> f_id ` {f \<in> set (files ex_db). f_is_missing f = 0}) [5, 3, 1, 4, 2] =
           [5, 1, 4, 2]" by code_simp
  have w: "map fp_order_index
     (memberships_of (the (db (fst (saveOrder ex_manager [5, 3, 1, 4, 2])))) 1 3) = [Some 1]"
    by code_simp
  from saveOrder_dense [OF a b c e f g o, of ex_host] a b c e v w show ?thesis by simp
qed

text \<open>
  C6 as stated fails when a listed member is flagged missing: in the catalog of the files
  1, 2 and 3, all three members of the default collection and file 3 missing,
  saveOrder([3, 1, 2]) is followed by a playlist order query that returns 1, 2, not
  3, 1, 2.
\<close>

theorem saveOrder_dense_counterexample:
  "map fp_file_id (file_playlists (the (db ex_small))) = [1, 2, 3] \<and>
   map fp_playlist_id (file_playlists (the (db ex_small))) = [1, 1, 1] \<and>
   map f_is_missing (files (the (db ex_small))) = [0, 0, 1] \<and>
   map item_id (items (getPlaylist ex_host (fst (saveOrder ex_small ex_order)) (ex_request []))) =
     [1, 2] \<and>
   ex_order = [3, 1, 2]"
  by code_simp

section \<open>Properties of the filesystem walk\<close>

lemma scan_entry_Inl:
  "(\<exists>e. scan_entry h r current entry acc = Inl e) \<longleftrightarrow> stat_throws h current entry"
  by (cases entry; cases "snd entry")
     (auto simp: scan_entry_def stat_throws_def Let_def split: option.splits)

lemma scan_entry_Inr:
  assumes "scan_entry h r current entry acc = Inr acc'"
  shows "set (fst acc') = set (fst acc) \<union> pushed h current [entry]"
  using assms
  by (cases entry; cases "snd entry")
     (auto simp: scan_entry_def pushed_def Let_def split: option.splits if_splits)

lemma pushed_Cons:
  "pushed h current (entry # es) = pushed h current [entry] \<union> pushed h current es"
  by (auto simp: pushed_def)

lemma scan_entries_Inl:
  "(\<exists>e. scan_entries h r current es acc = Inl e) \<longleftrightarrow>
   (\<exists>entry \<in> set es. stat_throws h current entry)"
proof (induction es arbitrary: acc)
  case Nil
  then show ?case by simp
next
  case (Cons entry es)
  show ?case
  proof (cases "scan_entry h r current entry acc")
    case (Inl e)
    then have "stat_throws h current entry" using scan_entry_Inl by blast
    with Inl show ?thesis by simp
  next
    case (Inr acc1)
    then have "\<not> stat_throws h current entry" using scan_entry_Inl [of h r current entry acc] by simp
    with Inr Cons.IH [of acc1] show ?thesis by simp
  qed
qed

lemma scan_entries_Inr:
  "scan_entries h r current es acc = Inr acc' \<Longrightarrow>
   set (fst acc') = set (fst acc) \<union> pushed h current es"
proof (induction es arbitrary: acc)
  case Nil
  then show ?case by (simp add: pushed_def)
next
  case (Cons entry es)
  from Cons.prems obtain acc1 where
    s1: "scan_entry h r current entry acc = Inr acc1" and
    s2: "scan_entries h r current es acc1 = Inr acc'"
    by (auto split: sum.splits)
  from scan_entry_Inr [OF s1] Cons.IH [OF s2] show ?case
    by (auto simp: pushed_Cons [of h current entry es])
qed

lemma raises_Directory:
  "raises h current (Directory es) \<longleftrightarrow>
     current \<noteq> [] \<and>
     ((\<exists>entry \<in> set es. stat_throws h current entry) \<or>
      (\<exists>(p, n) \<in> pushed h current es. raises h p n))"
proof -
  have "(\<exists>(p, n) \<in> pushed h current es. raises h p n) \<longleftrightarrow>
        (\<exists>entry \<in> set es. fst entry \<noteq> ''.cache'' \<and> isDirectory (snd entry) \<and>
           raises h (path_join h current (fst entry)) (snd entry))"
    unfolding pushed_def by fastforce
  then show ?thesis
    by (subst raises.simps) (simp only: fs_node.case, blast)
qed

lemma raises_other:
  "raises h current (RegularFile st) \<longleftrightarrow> current \<noteq> []"
  "raises h current UnreadableDirectory \<longleftrightarrow> current \<noteq> []"
  "raises h current OtherEntry \<longleftrightarrow> current \<noteq> []"
  by (subst raises.simps, simp)+

lemma walk_raises:
  "(\<exists>e. walk h r stack results = Inl e) \<longleftrightarrow> (\<exists>(p, n) \<in> set stack. raises h p n)"
proof (induction h r stack results rule: walk.induct)
  case (1 h r results)
  then show ?case by simp
next
  case (2 h r current node stack results)
  show ?case
  proof (cases "current = []")
    case True
    then have "\<not> raises h current node" by (subst raises.simps) simp
    with True 2(1) show ?thesis by simp
  next
    case ne: False
    show ?thesis
    proof (cases node)
      case (Directory es)
      show ?thesis
      proof (cases "scan_entries h r current es (stack, results)")
        case (Inl e)
        then have "\<exists>entry \<in> set es. stat_throws h current entry"
          using scan_entries_Inl by blast
        then have "raises h current node" using ne Directory by (simp add: raises_Directory)
        with Inl ne Directory show ?thesis by simp
      next
        case (Inr acc)
        then have none: "\<not> (\<exists>entry \<in> set es. stat_throws h current entry)"
          using scan_entries_Inl [of h r current es "(stack, results)"] by simp
        have st: "set (fst acc) = set stack \<union> pushed h current es"
          using scan_entries_Inr [OF Inr] by simp
        have "(\<exists>e. walk h r (fst acc) (snd acc) = Inl e) \<longleftrightarrow>
              (\<exists>(p, n) \<in> set (fst acc). raises h p n)"
          using 2(2) [OF ne Directory Inr] .
        also have "\<dots> \<longleftrightarrow> (\<exists>(p, n) \<in> set stack. raises h p n) \<or> raises h current node"
          using none ne Directory by (auto simp: st raises_Directory)
        finally show ?thesis using Inr ne Directory by auto
      qed
    next
      case (RegularFile st)
      then show ?thesis using ne by (simp add: raises_other)
    next
      case UnreadableDirectory
      then show ?thesis using ne by (simp add: raises_other)
    next
      case OtherEntry
      then show ?thesis using ne by (simp add: raises_other)
    qed
  qed
qed

text \<open>
  C8, as the code has it. collectFiles has no handler around \<^verbatim>\<open>readdirSync\<close> and
  \<^verbatim>\<open>statSync\<close>: the walk ends with an error exactly when it reaches a directory whose
  listing throws or a video file whose stat throws (outside entries named .cache), and
  returns the discovered files otherwise. Entries that are neither directory nor regular
  file, such as symbolic links, are passed over without a stat. When the walk raises,
  scanLibrary fails as a whole and hands back no catalog.
\<close>

theorem walk_aborts_on_error:
  "((\<exists>e. collectFiles h r tree = Inl e) \<longleftrightarrow> raises h r tree) \<and>
   (\<not> not_open m \<and> raises h (the (root_dir m)) tree \<longrightarrow> (\<exists>e. scanLibrary h tree m = Inl e))"
proof -
  have c: "(\<exists>e. collectFiles h r tree = Inl e) \<longleftrightarrow> raises h r tree" for r
    unfolding collectFiles_def using walk_raises [of h r "[(r, tree)]" "[]"] by simp
  have "\<exists>e. scanLibrary h tree m = Inl e"
    if "\<not> not_open m" "raises h (the (root_dir m)) tree"
    using that c [of "the (root_dir m)"] by (auto simp: scanLibrary_def)
  with c show ?thesis by blast
qed

theorem walk_aborts_on_error_witness:
  "\<not> not_open ex_manager \<and> raises ex_host (the (root_dir ex_manager)) ex_locked \<and>
   collectFiles ex_host ''/lib'' ex_locked = Inl ReadDirError \<and>
   scanLibrary ex_host ex_locked ex_manager = Inl ReadDirError \<and>
   \<not> raises ex_host ''/lib'' ex_tree \<and>
   map_sum id (map relativePath) (collectFiles ex_host ''/lib'' ex_tree) =
     Inr [''a.mp4'', ''sub/d.MKV'']"
proof -
  have a: "\<not> not_open ex_manager" by code_simp
  have b: "raises ex_host (the (root_dir ex_manager)) ex_locked" by code_simp
  have c: "collectFiles ex_host ''/lib'' ex_locked = Inl ReadDirError" by code_simp
  have d: "\<not> raises ex_host ''/lib'' ex_tree" by code_simp
  have e: "map_sum id (map relativePath) (collectFiles ex_host ''/lib'' ex_tree) =
     Inr [''a.mp4'', ''sub/d.MKV'']" by code_simp
  from walk_aborts_on_error [of ex_host "the (root_dir ex_manager)" ex_locked ex_manager] a b
  obtain x where x: "scanLibrary ex_host ex_locked ex_manager = Inl x" by blast
  have "x = ReadDirError" using x c a by (simp add: scanLibrary_def ex_manager_def)
  with x a b c d e show ?thesis by simp
qed

text \<open>
  C8 as stated fails: beside a subdirectory that cannot be read, the video a.mp4 is not
  returned; the walk ends with the error of the listing.
\<close>

theorem walk_isolation_counterexample:
  "collectFiles ex_host ''/lib'' ex_locked = Inl ReadDirError \<and>
   map_sum id (map relativePath)
     (collectFiles ex_host ''/lib'' (Directory [(''a.mp4'', RegularFile ex_stat)])) =
     Inr [''a.mp4'']"
  by code_simp

section \<open>Properties of the reconciling scan\<close>

subsection \<open>Rows, keys and the operations of the transaction\<close>

lemma keeps_refl: "keeps d d"
  by (simp add: keeps_def)

lemma keeps_trans: "keeps a b \<Longrightarrow> keeps b c \<Longrightarrow> keeps a c"
  unfolding keeps_def by (elim conjE exE) (simp)

lemma fold_max_ge: "(s::int) \<le> fold max xs s"
  by (induction xs arbitrary: s) (auto intro: order_trans [OF max.cobounded2])

lemma fold_max_bound: "(i::int) \<in> set xs \<Longrightarrow> i \<le> fold max xs s"
proof (induction xs arbitrary: s)
  case Nil
  then show ?case by simp
next
  case (Cons x xs)
  show ?case
  proof (cases "i = x")
    case True
    have "x \<le> max x s" by simp
    also have "\<dots> \<le> fold max xs (max x s)" by (rule fold_max_ge)
    finally show ?thesis using True by simp
  next
    case False
    with Cons show ?thesis by simp
  qed
qed

lemma next_rowid_fresh: "next_rowid s ids \<notin> set ids"
proof
  assume "next_rowid s ids \<in> set ids"
  from fold_max_bound [OF this, of s] show False by (simp add: next_rowid_def)
qed

lemma update_file_rows_shape:
  assumes "\<And>f. row_key (g f) = row_key f"
  shows "map row_key (files (update_file_rows i g d)) = map row_key (files d)"
    and "file_playlists (update_file_rows i g d) = file_playlists d"
    and "file_tags (update_file_rows i g d) = file_tags d"
    and "tags_table (update_file_rows i g d) = tags_table d"
    and "playlists (update_file_rows i g d) = playlists d"
  using assms by (simp_all add: update_file_rows_def)

lemma row_key_ids: "map row_key xs = map row_key ys \<Longrightarrow> map f_id xs = map f_id ys"
proof -
  assume e: "map row_key xs = map row_key ys"
  have "map fst (map row_key xs) = map fst (map row_key ys)" by (simp only: e)
  then show ?thesis by (simp add: row_key_def o_def)
qed

lemma row_key_paths: "map row_key xs = map row_key ys \<Longrightarrow> map f_path xs = map f_path ys"
proof -
  assume e: "map row_key xs = map row_key ys"
  have "map (fst \<circ> snd) (map row_key xs) = map (fst \<circ> snd) (map row_key ys)"
    by (simp only: e)
  then show ?thesis by (simp add: row_key_def o_def)
qed

lemma updateFile_shape:
  "map row_key (files (updateFile d i sf)) = map row_key (files d)"
  "file_playlists (updateFile d i sf) = file_playlists d"
  "file_tags (updateFile d i sf) = file_tags d"
  "tags_table (updateFile d i sf) = tags_table d"
  "playlists (updateFile d i sf) = playlists d"
  unfolding updateFile_def by (rule update_file_rows_shape; simp add: row_key_def)+

lemma markMissing_shape:
  "map row_key (files (markMissing d i)) = map row_key (files d)"
  "file_playlists (markMissing d i) = file_playlists d"
  "file_tags (markMissing d i) = file_tags d"
  "tags_table (markMissing d i) = tags_table d"
  "playlists (markMissing d i) = playlists d"
  unfolding markMissing_def by (rule update_file_rows_shape; simp add: row_key_def)+

lemma schema_ok_shape:
  assumes "map row_key (files d') = map row_key (files d)"
    and "file_playlists d' = file_playlists d"
  shows "schema_ok d' = schema_ok d"
  using row_key_ids [OF assms(1)] row_key_paths [OF assms(1)] assms(2)
  by (simp add: schema_ok_def)

lemma keeps_shape:
  assumes "map row_key (files d') = map row_key (files d)"
    and "file_playlists d' = file_playlists d"
    and "file_tags d' = file_tags d" "tags_table d' = tags_table d" "playlists d' = playlists d"
  shows "keeps d d'"
  using assms by (simp add: keeps_def)

lemma memberships_shape:
  "file_playlists d' = file_playlists d \<Longrightarrow> memberships_of d' p i = memberships_of d p i"
  by (simp add: memberships_of_def)

lemma insertFile_ok:
  assumes "relativePath sf \<notin> f_path ` set (files d)"
  shows "\<exists>d1 i. insertFile h d sf = Inr (d1, i) \<and>
           i \<notin> f_id ` set (files d) \<and>
           (\<exists>f. files d1 = files d @ [f] \<and> f_id f = i \<and> f_path f = relativePath sf \<and>
                f_is_missing f = 0) \<and>
           file_playlists d1 = file_playlists d \<and> file_tags d1 = file_tags d \<and>
           tags_table d1 = tags_table d \<and> playlists d1 = playlists d"
proof -
  have "next_rowid (seq_files d) (map f_id (files d)) \<notin> set (map f_id (files d))"
    by (rule next_rowid_fresh)
  moreover have "\<not> (\<exists>f \<in> set (files d). f_path f = relativePath sf)"
    using assms by force
  ultimately show ?thesis
    by (simp add: insertFile_def Let_def)
qed

lemma insertFilePlaylist_ok:
  assumes "i \<in> f_id ` set (files d)" "p \<in> p_id ` set (playlists d)"
  shows "\<exists>d2. insertFilePlaylist d i p k = Inr d2 \<and>
           files d2 = files d \<and> file_tags d2 = file_tags d \<and> tags_table d2 = tags_table d \<and>
           playlists d2 = playlists d \<and> memberships_of d2 p i \<noteq> [] \<and>
           (file_playlists d2 = file_playlists d \<or>
            (memberships_of d p i = [] \<and>
             (\<exists>fp. file_playlists d2 = file_playlists d @ [fp] \<and> fp_file_id fp = i \<and>
                   fp_playlist_id fp = p)))"
proof (cases "\<exists>fp \<in> set (file_playlists d). fp_file_id fp = i \<and> fp_playlist_id fp = p")
  case True
  then have "memberships_of d p i \<noteq> []"
    by (auto simp: memberships_of_def filter_empty_conv)
  with True show ?thesis by (simp add: insertFilePlaylist_def)
next
  case False
  then have "memberships_of d p i = []"
    by (auto simp: memberships_of_def filter_empty_conv)
  with False assms show ?thesis
    by (auto simp: insertFilePlaylist_def Let_def memberships_of_def)
qed

lemma schema_ok_insert_membership:
  assumes "schema_ok d" "files d2 = files d"
    and "file_playlists d2 = file_playlists d \<or>
         (memberships_of d p i = [] \<and>
          (\<exists>fp. file_playlists d2 = file_playlists d @ [fp] \<and> fp_file_id fp = i \<and>
                fp_playlist_id fp = p))"
  shows "schema_ok d2"
proof -
  have "(i, p) \<notin> set (map (\<lambda>fp. (fp_file_id fp, fp_playlist_id fp)) (file_playlists d))"
    if "memberships_of d p i = []"
    using that by (force simp: memberships_of_def filter_empty_conv)
  with assms show ?thesis
    by (auto simp: schema_ok_def)
qed

lemma keeps_insert_membership:
  assumes "files d2 = files d" "file_tags d2 = file_tags d" "tags_table d2 = tags_table d"
    "playlists d2 = playlists d"
    and "file_playlists d2 = file_playlists d \<or> (\<exists>fp. file_playlists d2 = file_playlists d @ [fp])"
  shows "keeps d d2"
  using assms by (auto simp: keeps_def)

lemma existing_row_iff:
  "row \<in> set (existing_rows d p) \<longleftrightarrow>
     (\<exists>f \<in> set (files d). \<exists>fp \<in> set (left_join (memberships_of d p (f_id f))).
        row = \<lparr> e_id = f_id f, e_path = f_path f,
                e_order_index = (case fp of None \<Rightarrow> None | Some a \<Rightarrow> fp_order_index a) \<rparr>)"
  by (auto simp: existing_rows_def set_files_by_id)

lemma existing_paths: "e_path ` set (existing_rows d p) = f_path ` set (files d)"
proof
  show "e_path ` set (existing_rows d p) \<subseteq> f_path ` set (files d)"
    by (auto simp: existing_row_iff)
  show "f_path ` set (files d) \<subseteq> e_path ` set (existing_rows d p)"
  proof
    fix x assume "x \<in> f_path ` set (files d)"
    then obtain f where f: "f \<in> set (files d)" and x: "x = f_path f" by blast
    obtain fp where fp: "fp \<in> set (left_join (memberships_of d p (f_id f)))"
      using left_join_nonempty [of "memberships_of d p (f_id f)"]
      by (cases "left_join (memberships_of d p (f_id f))") auto
    let ?row = "\<lparr> e_id = f_id f, e_path = f_path f,
                e_order_index = (case fp of None \<Rightarrow> None | Some a \<Rightarrow> fp_order_index a) \<rparr>"
    have "?row \<in> set (existing_rows d p)" using f fp unfolding existing_row_iff by blast
    then have "e_path ?row \<in> e_path ` set (existing_rows d p)" by (rule imageI)
    then show "x \<in> e_path ` set (existing_rows d p)" using x by simp
  qed
qed

lemma path_map_None:
  "path_map (existing_rows d p) x = None \<longleftrightarrow> x \<notin> f_path ` set (files d)"
proof -
  have "path_map (existing_rows d p) x = None \<longleftrightarrow> x \<notin> e_path ` set (existing_rows d p)"
    by (simp add: path_map_def map_of_eq_None_iff image_image)
  then show ?thesis by (simp add: existing_paths)
qed

lemma path_map_Some:
  assumes "path_map (existing_rows d p) x = Some row"
  shows "\<exists>f \<in> set (files d). f_path f = x \<and> e_id row = f_id f \<and>
           (e_order_index row \<noteq> None \<longrightarrow> memberships_of d p (f_id f) \<noteq> [])"
proof -
  from assms have "(x, row) \<in> set (rev (map (\<lambda>row. (e_path row, row)) (existing_rows d p)))"
    unfolding path_map_def by (rule map_of_SomeD)
  then have r: "row \<in> set (existing_rows d p)" and x: "e_path row = x" by auto
  from r obtain f fp where f: "f \<in> set (files d)"
    and fp: "fp \<in> set (left_join (memberships_of d p (f_id f)))"
    and row: "row = \<lparr> e_id = f_id f, e_path = f_path f,
                e_order_index = (case fp of None \<Rightarrow> None | Some a \<Rightarrow> fp_order_index a) \<rparr>"
    unfolding existing_row_iff by blast
  have "memberships_of d p (f_id f) \<noteq> []" if "e_order_index row \<noteq> None"
    using that fp row by (auto simp: left_join_def split: if_splits)
  with f x row show ?thesis by auto
qed

lemma keeps_membership:
  assumes "keeps d d'" "memberships_of d p i \<noteq> []"
  shows "memberships_of d' p i \<noteq> []"
proof -
  have iff: "memberships_of e p i \<noteq> [] \<longleftrightarrow>
        (i, p) \<in> set (map (\<lambda>fp. (fp_file_id fp, fp_playlist_id fp)) (file_playlists e))" for e
    by (force simp: memberships_of_def filter_empty_conv)
  from assms(1) obtain extra where
    "map (\<lambda>fp. (fp_file_id fp, fp_playlist_id fp)) (file_playlists d') =
     map (\<lambda>fp. (fp_file_id fp, fp_playlist_id fp)) (file_playlists d) @ extra"
    unfolding keeps_def by blast
  with assms(2) show ?thesis unfolding iff by simp
qed

lemma keeps_row:
  assumes "keeps d d'" "f \<in> set (files d)"
  shows "\<exists>f' \<in> set (files d'). row_key f' = row_key f"
proof -
  from assms(1) obtain extra where
    "map row_key (files d') = map row_key (files d) @ extra"
    unfolding keeps_def by blast
  with assms(2) have "row_key f \<in> set (map row_key (files d'))" by simp
  then show ?thesis by auto
qed

lemma update_file_rows_mem:
  "f \<in> set (files d) \<Longrightarrow>
   (if f_id f = i then g f else f) \<in> set (files (update_file_rows i g d))"
  by (auto simp: update_file_rows_def)

lemma updateFile_row:
  assumes "f \<in> set (files d)"
  shows "\<exists>f' \<in> set (files (updateFile d i sf)).
           row_key f' = row_key f \<and>
           (f_is_missing f' = 0 \<or> (f_id f \<noteq> i \<and> f_is_missing f' = f_is_missing f))"
  using update_file_rows_mem [OF assms, of i]
  unfolding updateFile_def
  by (rule rev_bexI) (auto simp: row_key_def)

lemma row_key_id: "row_key f' = row_key f \<Longrightarrow> f_id f' = f_id f \<and> f_path f' = f_path f"
  by (simp add: row_key_def)

lemma distinct_ids_same_row:
  assumes "schema_ok d" "f \<in> set (files d)" "g \<in> set (files d)" "f_id f = f_id g"
  shows "f = g"
proof -
  from assms(1) have "inj_on f_id (set (files d))"
    by (simp add: schema_ok_def distinct_map)
  with assms(2-4) show ?thesis by (simp add: inj_on_def)
qed

lemma scan_inv_advance:
  assumes inv: "scan_inv p d0 prev s"
    and fresh: "relativePath sf \<notin> relativePath ` set prev"
    and ok2: "schema_ok d2"
    and kp2: "keeps (s_db s) d2"
    and rows: "\<And>f. f \<in> set (files (s_db s)) \<Longrightarrow>
                 \<exists>f' \<in> set (files d2). row_key f' = row_key f \<and>
                   (f_is_missing f = 0 \<longrightarrow> f_is_missing f' = 0)"
    and paths2: "f_path ` set (files d2) =
                   f_path ` set (files (s_db s)) \<union> {relativePath sf}"
    and new: "\<exists>f \<in> set (files d2). f_id f = i \<and> f_path f = relativePath sf \<and>
                f_is_missing f = 0 \<and> memberships_of d2 p i \<noteq> []"
    and s': "s_db s' = d2" "s_seenIds s' = seen_add i (s_seenIds s)"
  shows "scan_inv p d0 (prev @ [sf]) s'"
proof -
  let ?paths = "relativePath ` set prev"
  from inv have kp: "keeps d0 (s_db s)"
    and paths: "f_path ` set (files (s_db s)) = f_path ` set (files d0) \<union> ?paths"
    and sr: "seen_rows p (s_db s) ?paths (s_seenIds s)"
    and sf: "seen_from (s_db s) ?paths (s_seenIds s)"
    and ds: "distinct (s_seenIds s)"
    and len: "length (s_seenIds s) = length prev"
    by (simp_all add: scan_inv_def)
  from new obtain fn where fn: "fn \<in> set (files d2)" "f_id fn = i"
    "f_path fn = relativePath sf" "f_is_missing fn = 0" "memberships_of d2 p i \<noteq> []"
    by blast
  have notin: "i \<notin> set (s_seenIds s)"
  proof
    assume "i \<in> set (s_seenIds s)"
    with sf obtain g where g: "g \<in> set (files (s_db s))" "f_id g = i" "f_path g \<in> ?paths"
      unfolding seen_from_def by blast
    from rows [OF g(1)] obtain g' where g': "g' \<in> set (files d2)" "row_key g' = row_key g"
      by blast
    from row_key_id [OF g'(2)] g have "f_id g' = f_id fn" "f_path g' = f_path g"
      using fn by simp_all
    with distinct_ids_same_row [OF ok2 g'(1) fn(1)] have "f_path fn = f_path g" by simp
    with g(3) fn(3) fresh show False by simp
  qed
  then have seen': "s_seenIds s' = s_seenIds s @ [i]" by (simp add: s' seen_add_def)
  have a: "keeps d0 d2" using kp kp2 by (rule keeps_trans)
  have b: "f_path ` set (files d2) = f_path ` set (files d0) \<union> relativePath ` set (prev @ [sf])"
    using paths paths2 by auto
  have c: "seen_rows p d2 (relativePath ` set (prev @ [sf])) (s_seenIds s')"
    unfolding seen_rows_def
  proof
    fix x assume "x \<in> relativePath ` set (prev @ [sf])"
    then consider "x \<in> ?paths" | "x = relativePath sf" by auto
    then show "\<exists>f \<in> set (files d2). f_path f = x \<and> f_is_missing f = 0 \<and>
                 f_id f \<in> set (s_seenIds s') \<and> memberships_of d2 p (f_id f) \<noteq> []"
    proof cases
      case 1
      with sr obtain f where f: "f \<in> set (files (s_db s))" "f_path f = x" "f_is_missing f = 0"
        "f_id f \<in> set (s_seenIds s)" "memberships_of (s_db s) p (f_id f) \<noteq> []"
        unfolding seen_rows_def by blast
      from rows [OF f(1)] f(3) obtain f' where f': "f' \<in> set (files d2)"
        "row_key f' = row_key f" "f_is_missing f' = 0" by blast
      from row_key_id [OF f'(2)] have e: "f_id f' = f_id f" "f_path f' = f_path f" by simp_all
      from keeps_membership [OF kp2 f(5)] have "memberships_of d2 p (f_id f') \<noteq> []"
        by (simp add: e)
      with f' e f show ?thesis by (auto simp: seen')
    next
      case 2
      with fn show ?thesis by (auto simp: seen')
    qed
  qed
  have d: "seen_from d2 (relativePath ` set (prev @ [sf])) (s_seenIds s')"
    unfolding seen_from_def
  proof
    fix j assume "j \<in> set (s_seenIds s')"
    then consider "j \<in> set (s_seenIds s)" | "j = i" by (auto simp: seen')
    then show "\<exists>f \<in> set (files d2). f_id f = j \<and> f_path f \<in> relativePath ` set (prev @ [sf])"
    proof cases
      case 1
      with sf obtain g where g: "g \<in> set (files (s_db s))" "f_id g = j" "f_path g \<in> ?paths"
        unfolding seen_from_def by blast
      from rows [OF g(1)] obtain g' where g': "g' \<in> set (files d2)" "row_key g' = row_key g"
        by blast
      from row_key_id [OF g'(2)] g g'(1) show ?thesis by auto
    next
      case 2
      with fn show ?thesis by auto
    qed
  qed
  have e: "distinct (s_seenIds s')" "length (s_seenIds s') = length (prev @ [sf])"
    using ds len notin by (simp_all add: seen')
  from ok2 a b c d e show ?thesis by (simp add: scan_inv_def s')
qed

lemma keeps_playlists: "keeps d d' \<Longrightarrow> playlists d' = playlists d"
  by (simp add: keeps_def)

lemma scan_file_new:
  assumes inv: "scan_inv p d0 prev s"
    and fresh: "relativePath sf \<notin> relativePath ` set prev"
    and pl: "p \<in> p_id ` set (playlists d0)"
    and none: "mp (relativePath sf) = None"
    and unknown: "relativePath sf \<notin> f_path ` set (files d0)"
  shows "\<exists>s'. scan_file h p mp sf s = Inr s' \<and> scan_inv p d0 (prev @ [sf]) s' \<and>
           s_added s' = s_added s + 1 \<and> s_updated s' = s_updated s"
proof -
  let ?x = "relativePath sf"
  from inv have ok: "schema_ok (s_db s)" and kp: "keeps d0 (s_db s)"
    and paths: "f_path ` set (files (s_db s)) = f_path ` set (files d0) \<union> relativePath ` set prev"
    by (simp_all add: scan_inv_def)
  from unknown fresh paths have nx: "?x \<notin> f_path ` set (files (s_db s))" by simp
  from insertFile_ok [OF nx, of h] obtain d1 i f where
    ins: "insertFile h (s_db s) sf = Inr (d1, i)"
    and fi: "i \<notin> f_id ` set (files (s_db s))"
    and f: "files d1 = files (s_db s) @ [f]" "f_id f = i" "f_path f = ?x" "f_is_missing f = 0"
    and t1: "file_playlists d1 = file_playlists (s_db s)" "file_tags d1 = file_tags (s_db s)"
      "tags_table d1 = tags_table (s_db s)" "playlists d1 = playlists (s_db s)"
    by blast
  have i1: "i \<in> f_id ` set (files d1)" using f by force
  have p1: "p \<in> p_id ` set (playlists d1)" using pl keeps_playlists [OF kp] t1 by simp
  from insertFilePlaylist_ok [OF i1 p1, of "s_nextOrder s"] obtain d2 where
    ip: "insertFilePlaylist d1 i p (s_nextOrder s) = Inr d2"
    and t2: "files d2 = files d1" "file_tags d2 = file_tags d1" "tags_table d2 = tags_table d1"
      "playlists d2 = playlists d1"
    and m2: "memberships_of d2 p i \<noteq> []"
    and fps: "file_playlists d2 = file_playlists d1 \<or>
            (memberships_of d1 p i = [] \<and>
             (\<exists>fp. file_playlists d2 = file_playlists d1 @ [fp] \<and> fp_file_id fp = i \<and>
                   fp_playlist_id fp = p))"
    by blast
  let ?s' = "s\<lparr> s_db := d2, s_nextOrder := s_nextOrder s + 1, s_added := s_added s + 1,
               s_seenIds := seen_add i (s_seenIds s) \<rparr>"
  have run: "scan_file h p mp sf s = Inr ?s'"
    using none ins ip by (simp add: scan_file_def)
  have ok1: "schema_ok d1"
    using ok fi nx f t1 by (auto simp: schema_ok_def)
  have ok2: "schema_ok d2"
    using ok1 t2(1) fps by (rule schema_ok_insert_membership)
  have k1: "keeps (s_db s) d1" using f t1 by (simp add: keeps_def)
  have k2: "keeps d1 d2" using t2 fps by (intro keeps_insert_membership) auto
  have kp2: "keeps (s_db s) d2" using k1 k2 by (rule keeps_trans)
  have rows: "\<exists>f' \<in> set (files d2). row_key f' = row_key g \<and>
                (f_is_missing g = 0 \<longrightarrow> f_is_missing f' = 0)"
    if "g \<in> set (files (s_db s))" for g
    using that t2(1) f(1) by auto
  have paths2: "f_path ` set (files d2) = f_path ` set (files (s_db s)) \<union> {?x}"
    using t2(1) f by auto
  have new: "\<exists>g \<in> set (files d2). f_id g = i \<and> f_path g = ?x \<and> f_is_missing g = 0 \<and>
                memberships_of d2 p i \<noteq> []"
    using t2(1) f m2 by auto
  have "scan_inv p d0 (prev @ [sf]) ?s'"
    using inv fresh ok2 kp2 rows paths2 new by (rule scan_inv_advance) simp_all
  with run show ?thesis by simp
qed

lemma scan_file_known:
  assumes inv: "scan_inv p d0 prev s"
    and fresh: "relativePath sf \<notin> relativePath ` set prev"
    and pl: "p \<in> p_id ` set (playlists d0)"
    and some: "mp (relativePath sf) = Some row"
    and known: "\<exists>f \<in> set (files d0). f_path f = relativePath sf \<and> e_id row = f_id f \<and>
                  (e_order_index row \<noteq> None \<longrightarrow> memberships_of d0 p (f_id f) \<noteq> [])"
  shows "\<exists>s'. scan_file h p mp sf s = Inr s' \<and> scan_inv p d0 (prev @ [sf]) s' \<and>
           s_added s' = s_added s \<and> s_updated s' = s_updated s + 1 \<and>
           map row_key (files (s_db s')) = map row_key (files (s_db s)) \<and>
           (memberships_of (s_db s) p (e_id row) \<noteq> [] \<longrightarrow>
              file_playlists (s_db s') = file_playlists (s_db s))"
proof -
  let ?x = "relativePath sf" and ?i = "e_id row"
  from inv have ok: "schema_ok (s_db s)" and kp: "keeps d0 (s_db s)"
    by (simp_all add: scan_inv_def)
  from known obtain f0 where f0: "f0 \<in> set (files d0)" "f_path f0 = ?x" "?i = f_id f0"
    "e_order_index row \<noteq> None \<longrightarrow> memberships_of d0 p (f_id f0) \<noteq> []" by blast
  from keeps_row [OF kp f0(1)] obtain f where f: "f \<in> set (files (s_db s))"
    "row_key f = row_key f0" by blast
  from row_key_id [OF f(2)] f0 have fx: "f_id f = ?i" "f_path f = ?x" by simp_all
  let ?d1 = "updateFile (s_db s) ?i sf"
  note sh = updateFile_shape [of "s_db s" ?i sf]
  have ok1: "schema_ok ?d1" using ok schema_ok_shape [OF sh(1) sh(2)] by simp
  have k1: "keeps (s_db s) ?d1" using sh by (rule keeps_shape)
  have i1: "?i \<in> f_id ` set (files ?d1)"
  proof -
    have "?i \<in> set (map f_id (files (s_db s)))" using f(1) fx(1) by force
    then have "?i \<in> set (map f_id (files ?d1))" by (simp only: row_key_ids [OF sh(1)])
    then show ?thesis by simp
  qed
  have p1: "p \<in> p_id ` set (playlists ?d1)" using pl keeps_playlists [OF kp] sh(5) by simp
  have "\<exists>d2. (if e_order_index row = None
               then insertFilePlaylist ?d1 ?i p (s_nextOrder s) else Inr ?d1) = Inr d2 \<and>
         files d2 = files ?d1 \<and> file_tags d2 = file_tags ?d1 \<and>
         tags_table d2 = tags_table ?d1 \<and> playlists d2 = playlists ?d1 \<and>
         memberships_of d2 p ?i \<noteq> [] \<and>
         (file_playlists d2 = file_playlists ?d1 \<or>
            (memberships_of ?d1 p ?i = [] \<and>
             (\<exists>fp. file_playlists d2 = file_playlists ?d1 @ [fp] \<and> fp_file_id fp = ?i \<and>
                   fp_playlist_id fp = p)))"
  proof (cases "e_order_index row = None")
    case True
    with insertFilePlaylist_ok [OF i1 p1, of "s_nextOrder s"] show ?thesis by simp
  next
    case False
    with f0 have "memberships_of d0 p ?i \<noteq> []" by simp
    from keeps_membership [OF kp this] have "memberships_of ?d1 p ?i \<noteq> []"
      by (simp add: memberships_shape [OF sh(2)])
    moreover have "(if e_order_index row = None
               then insertFilePlaylist ?d1 ?i p (s_nextOrder s) else Inr ?d1) = Inr ?d1"
      using False by (simp only: if_False)
    ultimately show ?thesis by (intro exI [of _ ?d1]) simp
  qed
  then obtain d2 where
    ip: "(if e_order_index row = None
            then insertFilePlaylist ?d1 ?i p (s_nextOrder s) else Inr ?d1) = Inr d2"
    and t2: "files d2 = files ?d1" "file_tags d2 = file_tags ?d1"
      "tags_table d2 = tags_table ?d1" "playlists d2 = playlists ?d1"
    and m2: "memberships_of d2 p ?i \<noteq> []"
    and fps: "file_playlists d2 = file_playlists ?d1 \<or>
            (memberships_of ?d1 p ?i = [] \<and>
             (\<exists>fp. file_playlists d2 = file_playlists ?d1 @ [fp] \<and> fp_file_id fp = ?i \<and>
                   fp_playlist_id fp = p))"
    by blast
  obtain s' where run: "scan_file h p mp sf s = Inr s'"
    and s': "s_db s' = d2" "s_seenIds s' = seen_add ?i (s_seenIds s)"
      "s_added s' = s_added s" "s_updated s' = s_updated s + 1"
    using some ip by (cases "e_order_index row = None") (auto simp: scan_file_def Let_def)
  have ok2: "schema_ok d2"
    using ok1 t2(1) fps by (rule schema_ok_insert_membership)
  have k2: "keeps ?d1 d2" using t2 fps by (intro keeps_insert_membership) auto
  have kp2: "keeps (s_db s) d2" using k1 k2 by (rule keeps_trans)
  have rows: "\<exists>f' \<in> set (files d2). row_key f' = row_key g \<and>
                (f_is_missing g = 0 \<longrightarrow> f_is_missing f' = 0)"
    if "g \<in> set (files (s_db s))" for g
    using updateFile_row [OF that, of ?i sf] t2(1) by auto
  have "f_path ` set (files d2) = f_path ` set (files (s_db s))"
    using row_key_paths [OF sh(1)] t2(1) by (metis set_map)
  moreover have "?x \<in> f_path ` set (files (s_db s))" using f(1) fx(2) by force
  ultimately have paths2: "f_path ` set (files d2) = f_path ` set (files (s_db s)) \<union> {?x}"
    by auto
  have new: "\<exists>g \<in> set (files d2). f_id g = ?i \<and> f_path g = ?x \<and> f_is_missing g = 0 \<and>
                memberships_of d2 p ?i \<noteq> []"
  proof -
    from updateFile_row [OF f(1), of ?i sf] obtain f' where f': "f' \<in> set (files ?d1)"
      "row_key f' = row_key f" "f_is_missing f' = 0 \<or> (f_id f \<noteq> ?i \<and> f_is_missing f' = f_is_missing f)"
      by blast
    from row_key_id [OF f'(2)] fx f' t2(1) m2 show ?thesis by auto
  qed
  have "scan_inv p d0 (prev @ [sf]) s'"
    using inv fresh ok2 kp2 rows paths2 new s'(1,2) by (rule scan_inv_advance)
  moreover have "file_playlists (s_db s') = file_playlists (s_db s)"
    if "memberships_of (s_db s) p ?i \<noteq> []"
    using that fps s'(1) sh(2) by (auto simp: memberships_shape [OF sh(2)])
  moreover have "map row_key (files (s_db s')) = map row_key (files (s_db s))"
    using sh(1) t2(1) s'(1) by simp
  ultimately show ?thesis using run s' by blast
qed

lemma scan_files_run:
  assumes inv: "scan_inv p d0 prev s"
    and dist: "distinct (map relativePath (prev @ rest))"
    and pl: "p \<in> p_id ` set (playlists d0)"
    and ok0: "schema_ok d0"
  shows "\<exists>s'. scan_files h p (path_map (existing_rows d0 p)) rest s = Inr s' \<and>
           scan_inv p d0 (prev @ rest) s' \<and>
           ((\<forall>sf \<in> set rest. \<exists>f \<in> set (files d0).
                f_path f = relativePath sf \<and> memberships_of d0 p (f_id f) \<noteq> []) \<longrightarrow>
            s_added s' = s_added s \<and> s_updated s' = s_updated s + int (length rest) \<and>
            file_playlists (s_db s') = file_playlists (s_db s) \<and>
            map row_key (files (s_db s')) = map row_key (files (s_db s)))"
  using inv dist
proof (induction rest arbitrary: prev s)
  case Nil
  then show ?case by simp
next
  case (Cons sf rest)
  let ?mp = "path_map (existing_rows d0 p)"
  let ?settled = "\<lambda>xs. \<forall>sf \<in> set xs. \<exists>f \<in> set (files d0).
                f_path f = relativePath sf \<and> memberships_of d0 p (f_id f) \<noteq> []"
  from Cons.prems(2) have fresh: "relativePath sf \<notin> relativePath ` set prev"
    and dist': "distinct (map relativePath ((prev @ [sf]) @ rest))" by auto
  from Cons.prems(1) have kp: "keeps d0 (s_db s)" by (simp add: scan_inv_def)
  have "\<exists>s1. scan_file h p ?mp sf s = Inr s1 \<and> scan_inv p d0 (prev @ [sf]) s1 \<and>
          (?settled [sf] \<longrightarrow>
             s_added s1 = s_added s \<and> s_updated s1 = s_updated s + 1 \<and>
             file_playlists (s_db s1) = file_playlists (s_db s) \<and>
             map row_key (files (s_db s1)) = map row_key (files (s_db s)))"
  proof (cases "?mp (relativePath sf)")
    case None
    then have un: "relativePath sf \<notin> f_path ` set (files d0)" by (simp add: path_map_None)
    then have "\<not> ?settled [sf]" by force
    with scan_file_new [where mp = "?mp" and h = h, OF Cons.prems(1) fresh pl None un]
    show ?thesis by blast
  next
    case (Some row)
    note kn = path_map_Some [OF Some]
    have "memberships_of (s_db s) p (e_id row) \<noteq> []" if "?settled [sf]"
    proof -
      from that obtain f where f: "f \<in> set (files d0)" "f_path f = relativePath sf"
        "memberships_of d0 p (f_id f) \<noteq> []" by auto
      from kn obtain f0 where f0: "f0 \<in> set (files d0)" "f_path f0 = relativePath sf"
        "e_id row = f_id f0" by blast
      from ok0 have "inj_on f_path (set (files d0))" by (simp add: schema_ok_def distinct_map)
      with f f0 have "f = f0" by (simp add: inj_on_def)
      with f f0 keeps_membership [OF kp f(3)] show ?thesis by simp
    qed
    with scan_file_known [where mp = "?mp" and h = h, OF Cons.prems(1) fresh pl Some kn]
    show ?thesis by blast
  qed
  then obtain s1 where s1: "scan_file h p ?mp sf s = Inr s1"
    and inv1: "scan_inv p d0 (prev @ [sf]) s1"
    and set1: "?settled [sf] \<longrightarrow>
             s_added s1 = s_added s \<and> s_updated s1 = s_updated s + 1 \<and>
             file_playlists (s_db s1) = file_playlists (s_db s) \<and>
             map row_key (files (s_db s1)) = map row_key (files (s_db s))"
    by blast
  from Cons.IH [OF inv1 dist'] obtain s' where
    s': "scan_files h p ?mp rest s1 = Inr s'"
    and inv': "scan_inv p d0 ((prev @ [sf]) @ rest) s'"
    and set': "?settled rest \<longrightarrow>
            s_added s' = s_added s1 \<and> s_updated s' = s_updated s1 + int (length rest) \<and>
            file_playlists (s_db s') = file_playlists (s_db s1) \<and>
            map row_key (files (s_db s')) = map row_key (files (s_db s1))"
    by blast
  have run: "scan_files h p ?mp (sf # rest) s = Inr s'" using s1 s' by simp
  have "s_added s' = s_added s \<and> s_updated s' = s_updated s + int (length (sf # rest)) \<and>
        file_playlists (s_db s') = file_playlists (s_db s) \<and>
        map row_key (files (s_db s')) = map row_key (files (s_db s))"
    if "?settled (sf # rest)"
  proof -
    from that have "?settled [sf]" "?settled rest" by simp_all
    with set1 set' show ?thesis by simp
  qed
  with run inv' show ?case by (intro exI [of _ s']) simp
qed

lemma mark_unseen_shape:
  "map row_key (files (mark_unseen seen ex d)) = map row_key (files d) \<and>
   file_playlists (mark_unseen seen ex d) = file_playlists d \<and>
   file_tags (mark_unseen seen ex d) = file_tags d \<and>
   tags_table (mark_unseen seen ex d) = tags_table d \<and>
   playlists (mark_unseen seen ex d) = playlists d"
  by (induction ex arbitrary: d) (simp_all add: markMissing_shape)

lemma markMissing_row:
  assumes "f \<in> set (files d)"
  shows "\<exists>f' \<in> set (files (markMissing d i)).
           row_key f' = row_key f \<and>
           f_is_missing f' = (if f_id f = i then 1 else f_is_missing f)"
  using update_file_rows_mem [OF assms, of i]
  unfolding markMissing_def
  by (rule rev_bexI) (auto simp: row_key_def)

lemma mark_unseen_row:
  assumes "f \<in> set (files d)"
  shows "\<exists>f' \<in> set (files (mark_unseen seen ex d)).
           row_key f' = row_key f \<and>
           f_is_missing f' =
             (if f_id f \<in> e_id ` set ex \<and> f_id f \<notin> set seen then 1 else f_is_missing f)"
  using assms
proof (induction ex arbitrary: d f)
  case Nil
  then have "f \<in> set (files (mark_unseen seen [] d))" by simp
  then show ?case by (rule rev_bexI) simp
next
  case (Cons row ex)
  let ?d1 = "if e_id row \<in> set seen then d else markMissing d (e_id row)"
  have "\<exists>f1 \<in> set (files ?d1). row_key f1 = row_key f \<and>
          f_is_missing f1 = (if f_id f = e_id row \<and> f_id f \<notin> set seen then 1 else f_is_missing f)"
  proof (cases "e_id row \<in> set seen")
    case True
    then have d1: "?d1 = d" by simp
    from True have c: "\<not> (f_id f = e_id row \<and> f_id f \<notin> set seen)" by auto
    have "\<exists>f1 \<in> set (files d). row_key f1 = row_key f \<and> f_is_missing f1 = f_is_missing f"
      using Cons.prems by (rule rev_bexI) simp
    then show ?thesis by (simp only: d1 c if_False)
  next
    case False
    with markMissing_row [OF Cons.prems, of "e_id row"] show ?thesis by auto
  qed
  then obtain f1 where f1: "f1 \<in> set (files ?d1)" "row_key f1 = row_key f"
    "f_is_missing f1 = (if f_id f = e_id row \<and> f_id f \<notin> set seen then 1 else f_is_missing f)"
    by blast
  from Cons.IH [OF f1(1)] obtain f' where f': "f' \<in> set (files (mark_unseen seen ex ?d1))"
    "row_key f' = row_key f1"
    "f_is_missing f' =
       (if f_id f1 \<in> e_id ` set ex \<and> f_id f1 \<notin> set seen then 1 else f_is_missing f1)"
    by blast
  from row_key_id [OF f1(2)] have "f_id f1 = f_id f" by simp
  with f1 f' show ?case by (intro bexI [of _ f']) auto
qed

lemma at_most_one:
  "distinct (map g xs) \<Longrightarrow> length (filter (\<lambda>x. g x = k) xs) \<le> 1"
proof (induction xs)
  case Nil
  then show ?case by simp
next
  case (Cons x xs)
  show ?case
  proof (cases "g x = k")
    case True
    from Cons.prems have "g x \<notin> g ` set xs" by simp
    then have "\<forall>y \<in> set xs. g y \<noteq> k" using True by (metis imageI)
    then have "filter (\<lambda>x. g x = k) xs = []" by (simp add: filter_empty_conv)
    with True show ?thesis by simp
  next
    case False
    with Cons show ?thesis by simp
  qed
qed

lemma length_existing_rows:
  assumes "schema_ok d"
  shows "length (existing_rows d p) = length (files d)"
proof -
  have one: "length (memberships_of d p i) \<le> 1" for i
  proof -
    have "distinct (map (\<lambda>fp. (fp_file_id fp, fp_playlist_id fp)) (file_playlists d))"
      using assms by (simp add: schema_ok_def)
    then have "length (filter (\<lambda>fp. (fp_file_id fp, fp_playlist_id fp) = (i, p))
                        (file_playlists d)) \<le> 1"
      by (rule at_most_one)
    then show ?thesis by (simp add: memberships_of_def)
  qed
  have "length (left_join (memberships_of d p i)) = 1" for i
    using one [of i] by (cases "memberships_of d p i") (simp_all add: left_join_def)
  then have "length (existing_rows d p) = length (files_by_id d)"
    by (simp add: existing_rows_def length_concat o_def sum_list_triv)
  then show ?thesis by (simp add: files_by_id_def)
qed

lemma existing_ids: "e_id ` set (existing_rows d p) = f_id ` set (files d)"
proof
  show "e_id ` set (existing_rows d p) \<subseteq> f_id ` set (files d)"
    by (auto simp: existing_row_iff)
  show "f_id ` set (files d) \<subseteq> e_id ` set (existing_rows d p)"
  proof
    fix x assume "x \<in> f_id ` set (files d)"
    then obtain f where f: "f \<in> set (files d)" and x: "x = f_id f" by blast
    obtain fp where fp: "fp \<in> set (left_join (memberships_of d p (f_id f)))"
      using left_join_nonempty [of "memberships_of d p (f_id f)"]
      by (cases "left_join (memberships_of d p (f_id f))") auto
    let ?row = "\<lparr> e_id = f_id f, e_path = f_path f,
                e_order_index = (case fp of None \<Rightarrow> None | Some a \<Rightarrow> fp_order_index a) \<rparr>"
    have "?row \<in> set (existing_rows d p)" using f fp unfolding existing_row_iff by blast
    then have "e_id ?row \<in> e_id ` set (existing_rows d p)" by (rule imageI)
    then show "x \<in> e_id ` set (existing_rows d p)" using x by simp
  qed
qed

lemma mark_unseen_back:
  assumes ok: "schema_ok d" and f': "f' \<in> set (files (mark_unseen seen ex d))"
  shows "\<exists>f \<in> set (files d). row_key f' = row_key f \<and>
           f_is_missing f' =
             (if f_id f \<in> e_id ` set ex \<and> f_id f \<notin> set seen then 1 else f_is_missing f)"
proof -
  let ?d1 = "mark_unseen seen ex d"
  note sh = mark_unseen_shape [of seen ex d]
  from sh have keys: "map row_key (files ?d1) = map row_key (files d)"
    and fps: "file_playlists ?d1 = file_playlists d" by simp_all
  have ok1: "schema_ok ?d1" using ok schema_ok_shape [OF keys fps] by simp
  from f' have "f_id f' \<in> set (map f_id (files ?d1))" by simp
  then have "f_id f' \<in> set (map f_id (files d))" by (simp only: row_key_ids [OF keys])
  then obtain f where f: "f \<in> set (files d)" "f_id f = f_id f'" by auto
  from mark_unseen_row [OF f(1), of seen ex] obtain f'' where f'': "f'' \<in> set (files ?d1)"
    "row_key f'' = row_key f"
    "f_is_missing f'' =
       (if f_id f \<in> e_id ` set ex \<and> f_id f \<notin> set seen then 1 else f_is_missing f)"
    by blast
  from row_key_id [OF f''(2)] f(2) have "f_id f'' = f_id f'" by simp
  from distinct_ids_same_row [OF ok1 f''(1) f' this] f'' f(1) show ?thesis by blast
qed

lemma distinct_paths_same_row:
  assumes "schema_ok d" "f \<in> set (files d)" "g \<in> set (files d)" "f_path f = f_path g"
  shows "f = g"
proof -
  from assms(1) have "inj_on f_path (set (files d))"
    by (simp add: schema_ok_def distinct_map)
  with assms(2-4) show ?thesis by (simp add: inj_on_def)
qed

lemma reconcile_run:
  assumes ok: "catalog_ok m" and dist: "distinct (map relativePath scanned)"
  shows "\<exists>m1 c1. reconcile h m scanned = Inr (m1, c1) \<and> catalog_ok m1 \<and>
           root_dir m1 = root_dir m \<and> libraryPlaylistId m1 = libraryPlaylistId m \<and>
           keeps (the (db m)) (the (db m1)) \<and>
           f_path ` set (files (the (db m1))) =
             f_path ` set (files (the (db m))) \<union> relativePath ` set scanned \<and>
           (\<forall>f \<in> set (files (the (db m1))).
              f_is_missing f = (if f_path f \<in> relativePath ` set scanned then 0 else 1)) \<and>
           settled (the (db m1)) (libraryPlaylistId m) scanned \<and>
           (settled (the (db m)) (libraryPlaylistId m) scanned \<longrightarrow>
              added c1 = 0 \<and> updated c1 = int (length scanned) \<and>
              removed c1 = int (length (files (the (db m)))) - int (length scanned) \<and>
              file_playlists (the (db m1)) = file_playlists (the (db m)) \<and>
              length (files (the (db m1))) = length (files (the (db m))))"
proof -
  let ?d0 = "the (db m)" and ?p = "libraryPlaylistId m"
  let ?S = "relativePath ` set scanned"
  let ?ex = "existing_rows ?d0 ?p"
  let ?s0 = "\<lparr> s_db = ?d0,
               s_nextOrder = (case max_order ?d0 ?p of None \<Rightarrow> 0 | Some k \<Rightarrow> k) + 1,
               s_added = 0, s_updated = 0, s_seenIds = [] \<rparr>"
  from ok have opened: "\<not> not_open m" and ok0: "schema_ok ?d0"
    and pl: "?p \<in> p_id ` set (playlists ?d0)" by (simp_all add: catalog_ok_def)
  have inv0: "scan_inv ?p ?d0 [] ?s0"
    using ok0 by (simp add: scan_inv_def keeps_refl seen_rows_def seen_from_def)
  from dist have dist0: "distinct (map relativePath ([] @ scanned))" by simp
  from scan_files_run [OF inv0 dist0 pl ok0, of h] obtain s where
    run: "scan_files h ?p (path_map ?ex) scanned ?s0 = Inr s"
    and inv: "scan_inv ?p ?d0 scanned s"
    and st: "settled ?d0 ?p scanned \<longrightarrow>
            s_added s = 0 \<and> s_updated s = int (length scanned) \<and>
            file_playlists (s_db s) = file_playlists ?d0 \<and>
            map row_key (files (s_db s)) = map row_key (files ?d0)"
    unfolding settled_def by auto
  let ?d1 = "mark_unseen (s_seenIds s) ?ex (s_db s)"
  let ?m1 = "m\<lparr> db := Some ?d1 \<rparr>"
  let ?c1 = "\<lparr> added = s_added s,
               removed = int (length ?ex) - int (length (s_seenIds s)),
               updated = s_updated s \<rparr>"
  have res: "reconcile h m scanned = Inr (?m1, ?c1)"
    using run by (simp add: reconcile_def Let_def)
  from inv have oks: "schema_ok (s_db s)" and kp: "keeps ?d0 (s_db s)"
    and paths: "f_path ` set (files (s_db s)) = f_path ` set (files ?d0) \<union> ?S"
    and sr: "seen_rows ?p (s_db s) ?S (s_seenIds s)"
    and sf: "seen_from (s_db s) ?S (s_seenIds s)"
    and len: "length (s_seenIds s) = length scanned"
    by (simp_all add: scan_inv_def)
  note sh = mark_unseen_shape [of "s_seenIds s" ?ex "s_db s"]
  from sh have keys: "map row_key (files ?d1) = map row_key (files (s_db s))"
    and fps: "file_playlists ?d1 = file_playlists (s_db s)"
    and pls: "playlists ?d1 = playlists (s_db s)" by simp_all
  have ok1: "schema_ok ?d1" using oks schema_ok_shape [OF keys fps] by simp
  have k1: "keeps ?d0 ?d1"
    using kp keeps_shape [of ?d1 "s_db s"] sh by (blast intro: keeps_trans)
  have c_ok: "catalog_ok ?m1"
    using opened ok1 pl pls keeps_playlists [OF kp]
    by (simp add: catalog_ok_def not_open_def)
  have p1: "f_path ` set (files ?d1) = f_path ` set (files ?d0) \<union> ?S"
    using row_key_paths [OF keys] paths by (metis set_map)
  have miss: "f_is_missing f = (if f_path f \<in> ?S then 0 else 1)" if f: "f \<in> set (files ?d1)" for f
  proof -
    from mark_unseen_back [OF oks f] obtain g where g: "g \<in> set (files (s_db s))"
      "row_key f = row_key g"
      "f_is_missing f =
         (if f_id g \<in> e_id ` set ?ex \<and> f_id g \<notin> set (s_seenIds s) then 1 else f_is_missing g)"
      by blast
    from row_key_id [OF g(2)] have e: "f_id f = f_id g" "f_path f = f_path g" by simp_all
    show ?thesis
    proof (cases "f_path f \<in> ?S")
      case True
      with sr obtain g2 where g2: "g2 \<in> set (files (s_db s))" "f_path g2 = f_path f"
        "f_is_missing g2 = 0" "f_id g2 \<in> set (s_seenIds s)"
        unfolding seen_rows_def by blast
      from distinct_paths_same_row [OF oks g2(1) g(1)] g2(2) e have "g2 = g" by simp
      with g2 g(3) True show ?thesis by simp
    next
      case False
      have "f_id g \<notin> set (s_seenIds s)"
      proof
        assume "f_id g \<in> set (s_seenIds s)"
        with sf obtain g3 where g3: "g3 \<in> set (files (s_db s))" "f_id g3 = f_id g"
          "f_path g3 \<in> ?S" unfolding seen_from_def by blast
        from distinct_ids_same_row [OF oks g3(1) g(1) g3(2)] g3(3) e False show False by simp
      qed
      moreover have "f_id g \<in> e_id ` set ?ex"
      proof -
        from g(1) paths False e have "f_path g \<in> f_path ` set (files ?d0)" by auto
        then obtain f0 where f0: "f0 \<in> set (files ?d0)" "f_path f0 = f_path g" by auto
        from keeps_row [OF kp f0(1)] obtain g0 where g0: "g0 \<in> set (files (s_db s))"
          "row_key g0 = row_key f0" by blast
        from row_key_id [OF g0(2)] f0(2) have "f_path g0 = f_path g" "f_id g0 = f_id f0"
          by simp_all
        with distinct_paths_same_row [OF oks g0(1) g(1)] have "f_id g = f_id f0" by simp
        with f0(1) show ?thesis by (simp add: existing_ids)
      qed
      ultimately show ?thesis using g(3) False by simp
    qed
  qed
  have st1: "settled ?d1 ?p scanned"
    unfolding settled_def
  proof
    fix x assume "x \<in> set scanned"
    then have "relativePath x \<in> ?S" by simp
    with sr obtain g where g: "g \<in> set (files (s_db s))" "f_path g = relativePath x"
      "memberships_of (s_db s) ?p (f_id g) \<noteq> []" unfolding seen_rows_def by blast
    from mark_unseen_row [OF g(1), of "s_seenIds s" ?ex] obtain g' where
      g': "g' \<in> set (files ?d1)" "row_key g' = row_key g" by blast
    from row_key_id [OF g'(2)] g have "f_path g' = relativePath x"
      "memberships_of ?d1 ?p (f_id g') \<noteq> []"
      by (simp_all add: memberships_shape [OF fps])
    with g'(1) show "\<exists>f \<in> set (files ?d1). f_path f = relativePath x \<and>
                       memberships_of ?d1 ?p (f_id f) \<noteq> []" by blast
  qed
  have cnt: "added ?c1 = 0 \<and> updated ?c1 = int (length scanned) \<and>
       removed ?c1 = int (length (files ?d0)) - int (length scanned) \<and>
       file_playlists ?d1 = file_playlists ?d0 \<and> length (files ?d1) = length (files ?d0)"
    if "settled ?d0 ?p scanned"
  proof -
    from st that have s: "s_added s = 0" "s_updated s = int (length scanned)"
      "file_playlists (s_db s) = file_playlists ?d0"
      "map row_key (files (s_db s)) = map row_key (files ?d0)" by simp_all
    have "length (files ?d1) = length (files ?d0)"
      using keys s(4) by (metis length_map)
    with s len fps length_existing_rows [OF ok0, of ?p] show ?thesis by simp
  qed
  from res c_ok k1 p1 miss st1 cnt show ?thesis
    by (intro exI [of _ ?m1] exI [of _ ?c1]) simp
qed

lemma set_paginate: "set (paginate l k rows) \<subseteq> set rows"
  by (auto simp: paginate_def split: option.splits dest: in_set_takeD in_set_dropD)

lemma items_not_missing:
  assumes "fid \<in> set (map item_id (items (getPlaylist h m options)))"
  shows "\<exists>f \<in> set (files (the (db m))). f_id f = fid \<and> f_is_missing f = 0"
proof (cases "not_open m")
  case True
  with assms show ?thesis by (simp add: getPlaylist_def)
next
  case False
  let ?q = "buildPlaylistQueryParts options"
  let ?groups = "base_groups (the (db m)) (libraryPlaylistId m) ?q"
  from assms False obtain f where
    f: "f \<in> set (paginate (request_limit options) (request_offset options)
                   (order_rows (the (db m)) (libraryPlaylistId m) (orderBy ?q) ?groups))"
    and fid: "fid = f_id f"
    by (auto simp: getPlaylist_def Let_def to_item_def)
  from f
  have "f \<in> set (order_rows (the (db m)) (libraryPlaylistId m) (orderBy ?q) ?groups)"
    by (rule subsetD [OF set_paginate])
  then have "f \<in> set ?groups" by (simp only: set_order_rows)
  then have "f \<in> set (files (the (db m)))" "f_is_missing f = 0"
    by (simp_all add: base_groups_def set_files_by_id where_clause_def)
  with fid show ?thesis by blast
qed

lemma count_absent:
  assumes ok: "schema_ok d"
    and dist: "distinct (map relativePath scanned)"
    and sub: "relativePath ` set scanned \<subseteq> f_path ` set (files d)"
  shows "int (length (filter (\<lambda>f. f_path f \<notin> relativePath ` set scanned) (files d))) =
         int (length (files d)) - int (length scanned)"
proof -
  let ?S = "relativePath ` set scanned"
  let ?in = "filter (\<lambda>f. f_path f \<in> ?S) (files d)"
  from ok have dp: "distinct (map f_path (files d))" by (simp add: schema_ok_def)
  then have "distinct (map f_path ?in)" by (rule distinct_map_filter)
  then have "length ?in = card (set (map f_path ?in))"
    by (metis distinct_card length_map)
  also have "set (map f_path ?in) = ?S"
  proof
    show "set (map f_path ?in) \<subseteq> ?S" by auto
    show "?S \<subseteq> set (map f_path ?in)"
    proof
      fix x assume x: "x \<in> ?S"
      with sub obtain f where "f \<in> set (files d)" "f_path f = x" by auto
      with x have "f \<in> set ?in" by simp
      with \<open>f_path f = x\<close> show "x \<in> set (map f_path ?in)" by force
    qed
  qed
  also have "card ?S = length scanned"
    using dist by (metis distinct_card length_map set_map)
  finally have "length ?in = length scanned" .
  moreover have "length ?in + length (filter (\<lambda>f. f_path f \<notin> ?S) (files d)) = length (files d)"
    using sum_length_filter_compl [of "\<lambda>f. f_path f \<in> ?S" "files d"] by simp
  ultimately show ?thesis by simp
qed

lemma scanLibrary_reconcile:
  assumes "catalog_ok m" "collectFiles h (the (root_dir m)) tree = Inr scanned"
  shows "scanLibrary h tree m = reconcile h m scanned"
  using assms by (simp add: scanLibrary_def catalog_ok_def)

subsection \<open>Scanning twice\<close>

text \<open>
  C3, as the code has it. Take an open catalog that meets the constraints of the schema
  and a walk that returns files with pairwise different relative paths. Both scans of the
  unchanged tree succeed, and the second one reports added = 0 and updated = the number
  of files seen; its removed is the number of catalog rows whose path the walk did not
  return (0 exactly when there is no such row), because it counts the rows not seen in
  this pass, whether or not an earlier scan had flagged them. The second scan adds no file
  row and leaves the membership rows as they were, with at most one row for each pair of
  file and collection.
\<close>

theorem scan_idempotent:
  assumes ok: "catalog_ok m"
    and walk: "collectFiles h (the (root_dir m)) tree = Inr scanned"
    and dist: "distinct (map relativePath scanned)"
  shows "\<exists>m1 c1 m2 c2.
           scanLibrary h tree m = Inr (m1, c1) \<and> scanLibrary h tree m1 = Inr (m2, c2) \<and>
           added c2 = 0 \<and> updated c2 = int (length scanned) \<and>
           removed c2 = int (length (filter (\<lambda>f. f_path f \<notin> relativePath ` set scanned)
                                       (files (the (db m1))))) \<and>
           length (files (the (db m2))) = length (files (the (db m1))) \<and>
           file_playlists (the (db m2)) = file_playlists (the (db m1)) \<and>
           distinct (map (\<lambda>fp. (fp_file_id fp, fp_playlist_id fp))
                       (file_playlists (the (db m2))))"
proof -
  from reconcile_run [OF ok dist, of h] obtain m1 c1 where
    r1: "reconcile h m scanned = Inr (m1, c1)" and ok1: "catalog_ok m1"
    and same: "root_dir m1 = root_dir m" "libraryPlaylistId m1 = libraryPlaylistId m"
    and paths: "f_path ` set (files (the (db m1))) =
                  f_path ` set (files (the (db m))) \<union> relativePath ` set scanned"
    and st1: "settled (the (db m1)) (libraryPlaylistId m) scanned"
    by blast
  from st1 same have st: "settled (the (db m1)) (libraryPlaylistId m1) scanned" by simp
  from reconcile_run [OF ok1 dist, of h] st obtain m2 c2 where
    r2: "reconcile h m1 scanned = Inr (m2, c2)" and ok2: "catalog_ok m2"
    and cnt: "added c2 = 0" "updated c2 = int (length scanned)"
      "removed c2 = int (length (files (the (db m1)))) - int (length scanned)"
      "file_playlists (the (db m2)) = file_playlists (the (db m1))"
      "length (files (the (db m2))) = length (files (the (db m1)))"
    by blast
  from ok1 have s1: "schema_ok (the (db m1))" by (simp add: catalog_ok_def)
  from ok2 have s2: "schema_ok (the (db m2))" by (simp add: catalog_ok_def)
  from paths have sub: "relativePath ` set scanned \<subseteq> f_path ` set (files (the (db m1)))"
    by blast
  have walk1: "collectFiles h (the (root_dir m1)) tree = Inr scanned" using walk same by simp
  have "scanLibrary h tree m = Inr (m1, c1)"
    using scanLibrary_reconcile [OF ok walk] r1 by simp
  moreover have "scanLibrary h tree m1 = Inr (m2, c2)"
    using scanLibrary_reconcile [OF ok1 walk1] r2 by simp
  moreover have "removed c2 = int (length (filter (\<lambda>f. f_path f \<notin> relativePath ` set scanned)
                                       (files (the (db m1)))))"
    using count_absent [OF s1 dist sub] cnt(3) by simp
  moreover have "distinct (map (\<lambda>fp. (fp_file_id fp, fp_playlist_id fp))
                       (file_playlists (the (db m2))))"
    using s2 by (simp add: schema_ok_def)
  ultimately show ?thesis using cnt by blast
qed

theorem scan_idempotent_witness:
  "catalog_ok ex_manager \<and>
   collectFiles ex_host (the (root_dir ex_manager)) ex_tree = Inr ex_scanned \<and>
   distinct (map relativePath ex_scanned) \<and>
   (\<exists>m1 c1 m2 c2.
      scanLibrary ex_host ex_tree ex_manager = Inr (m1, c1) \<and>
      scanLibrary ex_host ex_tree m1 = Inr (m2, c2) \<and>
      added c2 = 0 \<and> updated c2 = 2 \<and>
      file_playlists (the (db m2)) = file_playlists (the (db m1)))"
proof -
  have a: "catalog_ok ex_manager" by code_simp
  have b: "collectFiles ex_host (the (root_dir ex_manager)) ex_tree = Inr ex_scanned"
    by code_simp
  have c: "distinct (map relativePath ex_scanned)" by code_simp
  have l: "int (length ex_scanned) = 2" by (simp add: ex_scanned_def)
  from scan_idempotent [OF a b c] obtain m1 c1 m2 c2 where
    r: "scanLibrary ex_host ex_tree ex_manager = Inr (m1, c1) \<and>
        scanLibrary ex_host ex_tree m1 = Inr (m2, c2) \<and>
        added c2 = 0 \<and> updated c2 = int (length ex_scanned) \<and>
        removed c2 = int (length (filter (\<lambda>f. f_path f \<notin> relativePath ` set ex_scanned)
                                       (files (the (db m1))))) \<and>
        length (files (the (db m2))) = length (files (the (db m1))) \<and>
        file_playlists (the (db m2)) = file_playlists (the (db m1)) \<and>
        distinct (map (\<lambda>fp. (fp_file_id fp, fp_playlist_id fp))
                       (file_playlists (the (db m2))))"
    by (elim exE) (erule that)
  then have "scanLibrary ex_host ex_tree ex_manager = Inr (m1, c1) \<and>
      scanLibrary ex_host ex_tree m1 = Inr (m2, c2) \<and>
      added c2 = 0 \<and> updated c2 = 2 \<and>
      file_playlists (the (db m2)) = file_playlists (the (db m1))"
    using l by simp
  then have "\<exists>m1 c1 m2 c2.
      scanLibrary ex_host ex_tree ex_manager = Inr (m1, c1) \<and>
      scanLibrary ex_host ex_tree m1 = Inr (m2, c2) \<and>
      added c2 = 0 \<and> updated c2 = 2 \<and>
      file_playlists (the (db m2)) = file_playlists (the (db m1))"
    by (intro exI)
  with a b c show ?thesis by (intro conjI)
qed

text \<open>
  C3 as stated fails on removed: in the small catalog the rows b.mp4, c.mp4, d.mp4 and
  e.mp4 have no file in the tree, and the second of two scans in a row reports
  removed = 4, not 0.
\<close>

theorem scan_idempotent_counterexample:
  "map_sum id snd ex_second_scan = Inr \<lparr> added = 0, removed = 4, updated = 2 \<rparr>"
  by code_simp

subsection \<open>Missing, not deleted\<close>

lemma keeps_tags: "keeps d d' \<Longrightarrow> file_tags d' = file_tags d \<and> tags_table d' = tags_table d"
  by (simp add: keeps_def)

lemma row_key_rating: "row_key f' = row_key f \<Longrightarrow> f_rating f' = f_rating f"
  by (simp add: row_key_def)

text \<open>What one scan does to a row that was in the catalog before it.\<close>

lemma scan_row:
  assumes ok: "catalog_ok m"
    and walk: "collectFiles h (the (root_dir m)) tree = Inr scanned"
    and dist: "distinct (map relativePath scanned)"
    and f: "f \<in> set (files (the (db m)))"
  shows "\<exists>m1 c1 f1. scanLibrary h tree m = Inr (m1, c1) \<and> catalog_ok m1 \<and>
           root_dir m1 = root_dir m \<and>
           f1 \<in> set (files (the (db m1))) \<and> row_key f1 = row_key f \<and>
           f_is_missing f1 = (if f_path f \<in> relativePath ` set scanned then 0 else 1) \<and>
           file_tags (the (db m1)) = file_tags (the (db m)) \<and>
           tags_table (the (db m1)) = tags_table (the (db m))"
proof -
  from reconcile_run [OF ok dist, of h] obtain m1 c1 where
    r1: "reconcile h m scanned = Inr (m1, c1)" and ok1: "catalog_ok m1"
    and same: "root_dir m1 = root_dir m"
    and kp: "keeps (the (db m)) (the (db m1))"
    and miss: "\<forall>f \<in> set (files (the (db m1))).
              f_is_missing f = (if f_path f \<in> relativePath ` set scanned then 0 else 1)"
    by blast
  from keeps_row [OF kp f] obtain f1 where f1: "f1 \<in> set (files (the (db m1)))"
    "row_key f1 = row_key f" by blast
  from row_key_id [OF f1(2)] miss f1(1)
  have "f_is_missing f1 = (if f_path f \<in> relativePath ` set scanned then 0 else 1)" by simp
  with scanLibrary_reconcile [OF ok walk] r1 ok1 same f1 keeps_tags [OF kp]
  show ?thesis by auto
qed

lemma visible_again:
  assumes sch2: "schema_ok (the (db m2))" and open2: "\<not> not_open m2"
    and f2: "f2 \<in> set (files (the (db m2)))" "f_is_missing f2 = 0"
    and key2: "row_key f2 = row_key f"
    and tg: "\<And>i. tags_of_file (the (db m2)) i = tags_of_file d i"
    and dt: "distinct (tags options)"
  shows "f_id f \<in> set (map item_id (items (getPlaylist h m2 (options\<lparr>limit := None\<rparr>)))) \<longleftrightarrow>
             (ratingMin options > 0 \<longrightarrow> f_rating f \<ge> ratingMin options) \<and>
             set (tags options) \<subseteq> set (tags_of_file d (f_id f))"
proof -
  have ids: "f_id f2 = f_id f" using row_key_id [OF key2] by simp
  have rt: "f_rating f2 = f_rating f" using key2 by (rule row_key_rating)
  have one: "g = f2" if "g \<in> set (files (the (db m2)))" "f_id g = f_id f" for g
  proof -
    from that(2) ids have "f_id g = f_id f2" by simp
    from distinct_ids_same_row [OF sch2 that(1) f2(1) this] show ?thesis .
  qed
  have "(\<exists>g \<in> set (files (the (db m2))).
           f_id g = f_id f \<and> f_is_missing g = 0 \<and>
           (ratingMin options > 0 \<longrightarrow> f_rating g \<ge> ratingMin options) \<and>
           set (tags options) \<subseteq> set (tags_of_file (the (db m2)) (f_id f))) \<longleftrightarrow>
        (ratingMin options > 0 \<longrightarrow> f_rating f \<ge> ratingMin options) \<and>
         set (tags options) \<subseteq> set (tags_of_file d (f_id f))"
    (is "?L \<longleftrightarrow> ?R")
  proof
    assume ?L
    then obtain g where g: "g \<in> set (files (the (db m2)))" "f_id g = f_id f"
      and g3: "ratingMin options > 0 \<longrightarrow> f_rating g \<ge> ratingMin options"
      and g4: "set (tags options) \<subseteq> set (tags_of_file (the (db m2)) (f_id f))"
      by (elim bexE conjE) (rule that)
    from one [OF g] have "g = f2" .
    with g3 have "ratingMin options > 0 \<longrightarrow> f_rating f2 \<ge> ratingMin options" by simp
    with rt g4 show ?R by (simp only: tg)
  next
    assume r: ?R
    have "f_id f2 = f_id f \<and> f_is_missing f2 = 0 \<and>
           (ratingMin options > 0 \<longrightarrow> f_rating f2 \<ge> ratingMin options) \<and>
           set (tags options) \<subseteq> set (tags_of_file (the (db m2)) (f_id f))"
      using r ids f2(2) by (simp only: rt tg) simp
    with f2(1) show ?L by (rule rev_bexI)
  qed
  with items_unpaged_iff [OF open2 dt, of "f_id f" h] show ?thesis by (simp only:)
qed

text \<open>
  C5. Take an open catalog that meets the constraints of the schema, a row of it, and a
  scan whose walk does not return the path of that row. The scan keeps the row, with its
  id, path, rating, duration and play history, and sets its missing flag; tags and tag
  associations are untouched. No playlist query, whatever its filter, sort and page,
  returns the file. When a later scan finds a file at the same relative path, the row,
  still the same, has its flag cleared, keeps its rating and tags, and is returned by
  every unpaginated query whose rating and tag filter that rating and those tags pass.
\<close>

theorem missing_not_deleted:
  assumes ok: "catalog_ok m"
    and walk: "collectFiles h (the (root_dir m)) tree = Inr scanned"
    and dist: "distinct (map relativePath scanned)"
    and f: "f \<in> set (files (the (db m)))"
    and absent: "f_path f \<notin> relativePath ` set scanned"
  shows "\<exists>m1 c1 f1.
           scanLibrary h tree m = Inr (m1, c1) \<and> root_dir m1 = root_dir m \<and>
           f1 \<in> set (files (the (db m1))) \<and> row_key f1 = row_key f \<and> f_is_missing f1 = 1 \<and>
           file_tags (the (db m1)) = file_tags (the (db m)) \<and>
           tags_table (the (db m1)) = tags_table (the (db m)) \<and>
           (\<forall>options. f_id f \<notin> set (map item_id (items (getPlaylist h m1 options)))) \<and>
           (\<forall>tree' scanned'.
              collectFiles h (the (root_dir m1)) tree' = Inr scanned' \<and>
              distinct (map relativePath scanned') \<and>
              f_path f \<in> relativePath ` set scanned' \<longrightarrow>
              (\<exists>m2 c2 f2.
                 scanLibrary h tree' m1 = Inr (m2, c2) \<and>
                 f2 \<in> set (files (the (db m2))) \<and> row_key f2 = row_key f \<and>
                 f_is_missing f2 = 0 \<and>
                 file_tags (the (db m2)) = file_tags (the (db m)) \<and>
                 tags_table (the (db m2)) = tags_table (the (db m)) \<and>
                 (\<forall>options. distinct (tags options) \<longrightarrow>
                    (f_id f \<in> set (map item_id (items (getPlaylist h m2 (options\<lparr>limit := None\<rparr>)))) \<longleftrightarrow>
                     (ratingMin options > 0 \<longrightarrow> f_rating f \<ge> ratingMin options) \<and>
                     set (tags options) \<subseteq> set (tags_of_file (the (db m)) (f_id f))))))"
proof -
  from scan_row [OF ok walk dist f] obtain m1 c1 f1 where
    all1: "scanLibrary h tree m = Inr (m1, c1) \<and> catalog_ok m1 \<and>
           root_dir m1 = root_dir m \<and>
           f1 \<in> set (files (the (db m1))) \<and> row_key f1 = row_key f \<and>
           f_is_missing f1 = (if f_path f \<in> relativePath ` set scanned then 0 else 1) \<and>
           file_tags (the (db m1)) = file_tags (the (db m)) \<and>
           tags_table (the (db m1)) = tags_table (the (db m))"
    by (elim exE) (erule that)
  from all1 have s1: "scanLibrary h tree m = Inr (m1, c1)" and ok1: "catalog_ok m1"
    and rd1: "root_dir m1 = root_dir m"
    and f1a: "f1 \<in> set (files (the (db m1)))" "row_key f1 = row_key f"
    and f1b: "f_is_missing f1 = (if f_path f \<in> relativePath ` set scanned then 0 else 1)"
    and t1: "file_tags (the (db m1)) = file_tags (the (db m))"
      "tags_table (the (db m1)) = tags_table (the (db m))"
    by simp_all
  from f1b absent have f1c: "f_is_missing f1 = 1" by simp
  note f1 = f1a f1c
  from ok1 have sch1: "schema_ok (the (db m1))" by (simp add: catalog_ok_def)
  have hidden: "f_id f \<notin> set (map item_id (items (getPlaylist h m1 options)))" for options
  proof
    assume "f_id f \<in> set (map item_id (items (getPlaylist h m1 options)))"
    from items_not_missing [OF this] obtain g where g: "g \<in> set (files (the (db m1)))"
      "f_id g = f_id f" "f_is_missing g = 0" by (elim bexE conjE) (rule that)
    from row_key_id [OF f1(2)] g(2) have "f_id g = f_id f1" by simp
    from distinct_ids_same_row [OF sch1 g(1) f1(1) this] have "g = f1" .
    with g(3) f1(3) show False by simp
  qed
  have again: "\<exists>m2 c2 f2.
         scanLibrary h tree' m1 = Inr (m2, c2) \<and>
         f2 \<in> set (files (the (db m2))) \<and> row_key f2 = row_key f \<and> f_is_missing f2 = 0 \<and>
         file_tags (the (db m2)) = file_tags (the (db m)) \<and>
         tags_table (the (db m2)) = tags_table (the (db m)) \<and>
         (\<forall>options. distinct (tags options) \<longrightarrow>
            (f_id f \<in> set (map item_id (items (getPlaylist h m2 (options\<lparr>limit := None\<rparr>)))) \<longleftrightarrow>
             (ratingMin options > 0 \<longrightarrow> f_rating f \<ge> ratingMin options) \<and>
             set (tags options) \<subseteq> set (tags_of_file (the (db m)) (f_id f))))"
    if walk': "collectFiles h (the (root_dir m1)) tree' = Inr scanned'"
      and dist': "distinct (map relativePath scanned')"
      and present: "f_path f \<in> relativePath ` set scanned'"
    for tree' scanned'
  proof -
    from row_key_id [OF f1(2)] present have p1: "f_path f1 \<in> relativePath ` set scanned'"
      by simp
    from scan_row [OF ok1 walk' dist' f1(1)] obtain m2 c2 f2 where
      all2: "scanLibrary h tree' m1 = Inr (m2, c2) \<and> catalog_ok m2 \<and>
           root_dir m2 = root_dir m1 \<and>
           f2 \<in> set (files (the (db m2))) \<and> row_key f2 = row_key f1 \<and>
           f_is_missing f2 = (if f_path f1 \<in> relativePath ` set scanned' then 0 else 1) \<and>
           file_tags (the (db m2)) = file_tags (the (db m1)) \<and>
           tags_table (the (db m2)) = tags_table (the (db m1))"
      by (elim exE) (erule that)
    from all2 have s2: "scanLibrary h tree' m1 = Inr (m2, c2)" and ok2: "catalog_ok m2"
      and f2a: "f2 \<in> set (files (the (db m2)))" "row_key f2 = row_key f1"
      and f2b: "f_is_missing f2 = (if f_path f1 \<in> relativePath ` set scanned' then 0 else 1)"
      and t2: "file_tags (the (db m2)) = file_tags (the (db m1))"
        "tags_table (the (db m2)) = tags_table (the (db m1))"
      by simp_all
    from f2b p1 have f2c: "f_is_missing f2 = 0" by simp
    note f2 = f2a f2c
    from ok2 have sch2: "schema_ok (the (db m2))" and open2: "\<not> not_open m2"
      by (simp_all add: catalog_ok_def)
    have key2: "row_key f2 = row_key f" using f2(2) f1(2) by simp
    have tg: "tags_of_file (the (db m2)) i = tags_of_file (the (db m)) i" for i
      using t1 t2 by (simp add: tags_of_file_def)
    have vis: "f_id f \<in> set (map item_id (items (getPlaylist h m2 (options\<lparr>limit := None\<rparr>)))) \<longleftrightarrow>
             (ratingMin options > 0 \<longrightarrow> f_rating f \<ge> ratingMin options) \<and>
             set (tags options) \<subseteq> set (tags_of_file (the (db m)) (f_id f))"
      if dt: "distinct (tags options)" for options
      using sch2 open2 f2(1) f2(3) key2 tg dt by (rule visible_again)
    have tm: "file_tags (the (db m2)) = file_tags (the (db m))"
      "tags_table (the (db m2)) = tags_table (the (db m))" using t1 t2 by simp_all
    show ?thesis
    proof (rule exI [of _ m2], rule exI [of _ c2], rule exI [of _ f2], intro conjI allI impI)
      show "scanLibrary h tree' m1 = Inr (m2, c2)" by (rule s2)
      show "f2 \<in> set (files (the (db m2)))" by (rule f2(1))
      show "row_key f2 = row_key f" by (rule key2)
      show "f_is_missing f2 = 0" by (rule f2(3))
      show "file_tags (the (db m2)) = file_tags (the (db m))" by (rule tm(1))
      show "tags_table (the (db m2)) = tags_table (the (db m))" by (rule tm(2))
    next
      fix options :: PlaylistRequest
      assume "distinct (tags options)"
      then show "f_id f \<in> set (map item_id (items (getPlaylist h m2 (options\<lparr>limit := None\<rparr>)))) \<longleftrightarrow>
             (ratingMin options > 0 \<longrightarrow> f_rating f \<ge> ratingMin options) \<and>
             set (tags options) \<subseteq> set (tags_of_file (the (db m)) (f_id f))"
        by (rule vis)
    qed
  qed
  show ?thesis
  proof (rule exI [of _ m1], rule exI [of _ c1], rule exI [of _ f1], intro conjI allI impI)
    show "scanLibrary h tree m = Inr (m1, c1)" by (rule s1)
    show "root_dir m1 = root_dir m" by (rule rd1)
    show "f1 \<in> set (files (the (db m1)))" by (rule f1(1))
    show "row_key f1 = row_key f" by (rule f1(2))
    show "f_is_missing f1 = 1" by (rule f1(3))
    show "file_tags (the (db m1)) = file_tags (the (db m))" by (rule t1(1))
    show "tags_table (the (db m1)) = tags_table (the (db m))" by (rule t1(2))
  next
    fix options :: PlaylistRequest
    show "f_id f \<notin> set (map item_id (items (getPlaylist h m1 options)))" by (rule hidden)
  next
    fix tree' scanned'
    assume "collectFiles h (the (root_dir m1)) tree' = Inr scanned' \<and>
            distinct (map relativePath scanned') \<and>
            f_path f \<in> relativePath ` set scanned'"
    then have "collectFiles h (the (root_dir m1)) tree' = Inr scanned'"
      "distinct (map relativePath scanned')" "f_path f \<in> relativePath ` set scanned'"
      by simp_all
    then show "\<exists>m2 c2 f2.
         scanLibrary h tree' m1 = Inr (m2, c2) \<and>
         f2 \<in> set (files (the (db m2))) \<and> row_key f2 = row_key f \<and> f_is_missing f2 = 0 \<and>
         file_tags (the (db m2)) = file_tags (the (db m)) \<and>
         tags_table (the (db m2)) = tags_table (the (db m)) \<and>
         (\<forall>options. distinct (tags options) \<longrightarrow>
            (f_id f \<in> set (map item_id (items (getPlaylist h m2 (options\<lparr>limit := None\<rparr>)))) \<longleftrightarrow>
             (ratingMin options > 0 \<longrightarrow> f_rating f \<ge> ratingMin options) \<and>
             set (tags options) \<subseteq> set (tags_of_file (the (db m)) (f_id f))))"
      by (rule again)
  qed
qed

theorem missing_not_deleted_witness:
  "catalog_ok ex_manager \<and>
   collectFiles ex_host (the (root_dir ex_manager)) ex_tree = Inr ex_scanned \<and>
   distinct (map relativePath ex_scanned) \<and>
   ex_b \<in> set (files (the (db ex_manager))) \<and>
   f_path ex_b \<notin> relativePath ` set ex_scanned \<and>
   (\<exists>m1 c1 f1.
      scanLibrary ex_host ex_tree ex_manager = Inr (m1, c1) \<and>
      f1 \<in> set (files (the (db m1))) \<and> row_key f1 = row_key ex_b \<and> f_is_missing f1 = 1 \<and>
      2 \<notin> set (map item_id (items (getPlaylist ex_host m1 (ex_request [])))) \<and>
      (\<exists>m2 c2 f2.
         scanLibrary ex_host ex_tree_back m1 = Inr (m2, c2) \<and>
         f2 \<in> set (files (the (db m2))) \<and> row_key f2 = row_key ex_b \<and> f_is_missing f2 = 0 \<and>
         2 \<in> set (map item_id (items (getPlaylist ex_host m2
                                        ((ex_request [''a''])\<lparr>limit := None\<rparr>))))))"
proof -
  have a: "catalog_ok ex_manager" by code_simp
  have b: "collectFiles ex_host (the (root_dir ex_manager)) ex_tree = Inr ex_scanned"
    by code_simp
  have c: "distinct (map relativePath ex_scanned)" by code_simp
  have fm: "ex_b \<in> set (files (the (db ex_manager)))" by code_simp
  have ab: "f_path ex_b \<notin> relativePath ` set ex_scanned" by code_simp
  have i2: "f_id ex_b = 2" by code_simp
  have b2: "collectFiles ex_host (the (root_dir ex_manager)) ex_tree_back = Inr ex_scanned_back"
    by code_simp
  have c2: "distinct (map relativePath ex_scanned_back)" by code_simp
  have p2: "f_path ex_b \<in> relativePath ` set ex_scanned_back" by code_simp
  have dt: "distinct (tags (ex_request [''a'']))" by code_simp
  have rhs: "(ratingMin (ex_request [''a'']) > 0 \<longrightarrow> f_rating ex_b \<ge> ratingMin (ex_request [''a''])) \<and>
             set (tags (ex_request [''a''])) \<subseteq> set (tags_of_file (the (db ex_manager)) (f_id ex_b))"
    by code_simp
  from missing_not_deleted [OF a b c fm ab] obtain m1 c1 f1 where
    s1: "scanLibrary ex_host ex_tree ex_manager = Inr (m1, c1)"
    and rd1: "root_dir m1 = root_dir ex_manager"
    and f1: "f1 \<in> set (files (the (db m1)))" "row_key f1 = row_key ex_b" "f_is_missing f1 = 1"
    and hidden: "\<forall>options. f_id ex_b \<notin> set (map item_id (items (getPlaylist ex_host m1 options)))"
    and again: "\<forall>tree' scanned'.
              collectFiles ex_host (the (root_dir m1)) tree' = Inr scanned' \<and>
              distinct (map relativePath scanned') \<and>
              f_path ex_b \<in> relativePath ` set scanned' \<longrightarrow>
              (\<exists>m2 c2 f2.
                 scanLibrary ex_host tree' m1 = Inr (m2, c2) \<and>
                 f2 \<in> set (files (the (db m2))) \<and> row_key f2 = row_key ex_b \<and>
                 f_is_missing f2 = 0 \<and>
                 file_tags (the (db m2)) = file_tags (the (db ex_manager)) \<and>
                 tags_table (the (db m2)) = tags_table (the (db ex_manager)) \<and>
                 (\<forall>options. distinct (tags options) \<longrightarrow>
                    (f_id ex_b \<in> set (map item_id (items (getPlaylist ex_host m2 (options\<lparr>limit := None\<rparr>)))) \<longleftrightarrow>
                     (ratingMin options > 0 \<longrightarrow> f_rating ex_b \<ge> ratingMin options) \<and>
                     set (tags options) \<subseteq> set (tags_of_file (the (db ex_manager)) (f_id ex_b)))))"
    by (elim exE conjE) (rule that)
  from hidden i2 have h1: "2 \<notin> set (map item_id (items (getPlaylist ex_host m1 (ex_request []))))"
    by simp
  from b2 rd1 have b2': "collectFiles ex_host (the (root_dir m1)) ex_tree_back = Inr ex_scanned_back"
    by simp
  have "\<exists>m2 c2 f2.
                 scanLibrary ex_host ex_tree_back m1 = Inr (m2, c2) \<and>
                 f2 \<in> set (files (the (db m2))) \<and> row_key f2 = row_key ex_b \<and>
                 f_is_missing f2 = 0 \<and>
                 file_tags (the (db m2)) = file_tags (the (db ex_manager)) \<and>
                 tags_table (the (db m2)) = tags_table (the (db ex_manager)) \<and>
                 (\<forall>options. distinct (tags options) \<longrightarrow>
                    (f_id ex_b \<in> set (map item_id (items (getPlaylist ex_host m2 (options\<lparr>limit := None\<rparr>)))) \<longleftrightarrow>
                     (ratingMin options > 0 \<longrightarrow> f_rating ex_b \<ge> ratingMin options) \<and>
                     set (tags options) \<subseteq> set (tags_of_file (the (db ex_manager)) (f_id ex_b))))"
    by (rule again [rule_format, of ex_tree_back ex_scanned_back]) (simp only: b2' c2 p2 simp_thms)
  then obtain m2 c2 f2 where
    s2: "scanLibrary ex_host ex_tree_back m1 = Inr (m2, c2)"
    and f2: "f2 \<in> set (files (the (db m2)))" "row_key f2 = row_key ex_b" "f_is_missing f2 = 0"
    and vis: "\<forall>options. distinct (tags options) \<longrightarrow>
                    (f_id ex_b \<in> set (map item_id (items (getPlaylist ex_host m2 (options\<lparr>limit := None\<rparr>)))) \<longleftrightarrow>
                     (ratingMin options > 0 \<longrightarrow> f_rating ex_b \<ge> ratingMin options) \<and>
                     set (tags options) \<subseteq> set (tags_of_file (the (db ex_manager)) (f_id ex_b)))"
    by (elim exE conjE) (rule that)
  from vis [rule_format, OF dt] rhs i2
  have v2: "2 \<in> set (map item_id (items (getPlaylist ex_host m2
                                        ((ex_request [''a''])\<lparr>limit := None\<rparr>))))"
    by simp
  have inner: "\<exists>m2 c2 f2.
         scanLibrary ex_host ex_tree_back m1 = Inr (m2, c2) \<and>
         f2 \<in> set (files (the (db m2))) \<and> row_key f2 = row_key ex_b \<and> f_is_missing f2 = 0 \<and>
         2 \<in> set (map item_id (items (getPlaylist ex_host m2
                                        ((ex_request [''a''])\<lparr>limit := None\<rparr>))))"
    using s2 f2 v2 by (intro exI conjI)
  have outer: "\<exists>m1 c1 f1.
      scanLibrary ex_host ex_tree ex_manager = Inr (m1, c1) \<and>
      f1 \<in> set (files (the (db m1))) \<and> row_key f1 = row_key ex_b \<and> f_is_missing f1 = 1 \<and>
      2 \<notin> set (map item_id (items (getPlaylist ex_host m1 (ex_request [])))) \<and>
      (\<exists>m2 c2 f2.
         scanLibrary ex_host ex_tree_back m1 = Inr (m2, c2) \<and>
         f2 \<in> set (files (the (db m2))) \<and> row_key f2 = row_key ex_b \<and> f_is_missing f2 = 0 \<and>
         2 \<in> set (map item_id (items (getPlaylist ex_host m2
                                        ((ex_request [''a''])\<lparr>limit := None\<rparr>)))))"
  proof (rule exI [of _ m1], rule exI [of _ c1], rule exI [of _ f1], intro conjI)
    show "scanLibrary ex_host ex_tree ex_manager = Inr (m1, c1)" by (rule s1)
    show "f1 \<in> set (files (the (db m1)))" by (rule f1(1))
    show "row_key f1 = row_key ex_b" by (rule f1(2))
    show "f_is_missing f1 = 1" by (rule f1(3))
    show "2 \<notin> set (map item_id (items (getPlaylist ex_host m1 (ex_request []))))"
      by (rule h1)
    show "\<exists>m2 c2 f2.
         scanLibrary ex_host ex_tree_back m1 = Inr (m2, c2) \<and>
         f2 \<in> set (files (the (db m2))) \<and> row_key f2 = row_key ex_b \<and> f_is_missing f2 = 0 \<and>
         2 \<in> set (map item_id (items (getPlaylist ex_host m2
                                        ((ex_request [''a''])\<lparr>limit := None\<rparr>))))"
      by (rule inner)
  qed
  from a b c fm ab outer show ?thesis by (intro conjI)
qed

end
